theory Spec2Isabelle
  imports Complex_Main "HOL-Library.Word"
begin

section \<open>Python values used by the FMO header code\<close>

text \<open>
  A \<^verbatim>\<open>bytes\<close> object is a list of 8-bit words.  A Python \<^verbatim>\<open>str\<close> is a sequence of code
  points; every code point of a \<^verbatim>\<open>str\<close> is below \<open>0x110000\<close>.  Python integers are
  unbounded.  The header object is dynamically typed: \<^verbatim>\<open>setattr\<close> stores whatever value a
  caller passes, so attribute values are \<open>pyval\<close>s (the callers in this repository pass
  integers and strings).
\<close>

type_synonym byte = "8 word"
type_synonym bytes = "byte list"
type_synonym str = "nat list"

datatype pyval = PyInt int | PyStr str

datatype error = ValueError | AttributeError | TypeError | StructError | UnicodeEncodeError

subsection \<open>\<^verbatim>\<open>str.encode('utf-8')\<close>\<close>

definition is_surrogate :: "nat \<Rightarrow> bool" where
  "is_surrogate c = (0xD800 \<le> c \<and> c < 0xE000)"

definition scalar_value :: "nat \<Rightarrow> bool" where
  "scalar_value c = (c < 0x110000 \<and> \<not> is_surrogate c)"

text \<open>A continuation byte \<^verbatim>\<open>10xxxxxx\<close> carrying six bits.\<close>

definition cont_byte :: "nat \<Rightarrow> byte" where
  "cont_byte d = of_nat (0x80 + d)"

definition encode_cp :: "nat \<Rightarrow> bytes" where
  "encode_cp c =
     (if c < 0x80 then [of_nat c]
      else if c < 0x800 then [of_nat (0xC0 + c div 64), cont_byte (c mod 64)]
      else if c < 0x10000 then
        [of_nat (0xE0 + c div 4096), cont_byte (c div 64 mod 64), cont_byte (c mod 64)]
      else
        [of_nat (0xF0 + c div 262144), cont_byte (c div 4096 mod 64),
         cont_byte (c div 64 mod 64), cont_byte (c mod 64)])"

text \<open>The strict encoder raises \<^verbatim>\<open>UnicodeEncodeError\<close> on a lone surrogate.\<close>

fun utf8_encode :: "str \<Rightarrow> error + bytes" where
  "utf8_encode [] = Inr []"
| "utf8_encode (c # cs) =
     (if is_surrogate c then Inl UnicodeEncodeError
      else (case utf8_encode cs of
              Inl e \<Rightarrow> Inl e
            | Inr bs \<Rightarrow> Inr (encode_cp c @ bs)))"

subsection \<open>\<^verbatim>\<open>bytes.decode('utf-8', errors='replace')\<close>\<close>

definition REPLACEMENT :: nat where
  "REPLACEMENT = 0xFFFD"

definition is_cont :: "byte \<Rightarrow> bool" where
  "is_cont b = (0x80 \<le> unat b \<and> unat b < 0xC0)"

definition cont_bits :: "byte \<Rightarrow> nat" where
  "cont_bits b = unat b - 0x80"

text \<open>
  The second byte of a multi-byte sequence must be a continuation byte, and must not make
  the sequence overlong (\<open>E0 80..9F\<close>, \<open>F0 80..8F\<close>), a surrogate (\<open>ED A0..BF\<close>) or a value
  above \<open>0x10FFFF\<close> (\<open>F4 90..BF\<close>).
\<close>

definition valid_second :: "nat \<Rightarrow> byte \<Rightarrow> bool" where
  "valid_second c0 b1 =
     (is_cont b1
      \<and> \<not> (c0 = 0xE0 \<and> unat b1 < 0xA0)
      \<and> \<not> (c0 = 0xED \<and> 0xA0 \<le> unat b1)
      \<and> \<not> (c0 = 0xF0 \<and> unat b1 < 0x90)
      \<and> \<not> (c0 = 0xF4 \<and> 0x90 \<le> unat b1))"

text \<open>
  The decoder never fails.  An invalid start byte, a sequence broken by a byte that cannot
  continue it, and a sequence cut off by the end of the input each become one replacement
  character; decoding resumes at the byte that broke the sequence.
\<close>

fun utf8_decode_replace :: "bytes \<Rightarrow> str" where
  "utf8_decode_replace [] = []"
| "utf8_decode_replace (b0 # bs) =
     (let c0 = unat b0 in
      if c0 < 0x80 then c0 # utf8_decode_replace bs
      else if c0 < 0xC2 \<or> 0xF5 \<le> c0 then REPLACEMENT # utf8_decode_replace bs
      else (case bs of
          [] \<Rightarrow> [REPLACEMENT]
        | b1 # r1 \<Rightarrow>
          if \<not> valid_second c0 b1 then REPLACEMENT # utf8_decode_replace bs
          else if c0 < 0xE0 then
            ((c0 - 0xC0) * 64 + cont_bits b1) # utf8_decode_replace r1
          else (case r1 of
              [] \<Rightarrow> [REPLACEMENT]
            | b2 # r2 \<Rightarrow>
              if \<not> is_cont b2 then REPLACEMENT # utf8_decode_replace r1
              else if c0 < 0xF0 then
                ((c0 - 0xE0) * 4096 + cont_bits b1 * 64 + cont_bits b2) # utf8_decode_replace r2
              else (case r2 of
                  [] \<Rightarrow> [REPLACEMENT]
                | b3 # r3 \<Rightarrow>
                  if \<not> is_cont b3 then REPLACEMENT # utf8_decode_replace r2
                  else ((c0 - 0xF0) * 262144 + cont_bits b1 * 4096 + cont_bits b2 * 64
                        + cont_bits b3) # utf8_decode_replace r3))))"

subsection \<open>\<^verbatim>\<open>struct.pack\<close> and \<^verbatim>\<open>struct.unpack\<close> with format \<^verbatim>\<open><IHHH12s\<close>\<close>

fun le_bytes :: "nat \<Rightarrow> nat \<Rightarrow> bytes" where
  "le_bytes 0 v = []"
| "le_bytes (Suc n) v = of_nat (v mod 256) # le_bytes n (v div 256)"

fun le_value :: "bytes \<Rightarrow> nat" where
  "le_value [] = 0"
| "le_value (b # bs) = unat b + 256 * le_value bs"

text \<open>
  \<^verbatim>\<open>I\<close> takes an integer in \<open>[0, 2^32)\<close> and \<^verbatim>\<open>H\<close> one in \<open>[0, 2^16)\<close>; anything else raises
  \<^verbatim>\<open>struct.error\<close>.  \<^verbatim>\<open>12s\<close> truncates or zero-pads its bytes argument to 12 bytes.
\<close>

definition pack_uint :: "nat \<Rightarrow> pyval \<Rightarrow> error + bytes" where
  "pack_uint n v =
     (case v of
        PyInt i \<Rightarrow> if 0 \<le> i \<and> i < 256 ^ n then Inr (le_bytes n (nat i)) else Inl StructError
      | PyStr _ \<Rightarrow> Inl StructError)"

definition pack_12s :: "bytes \<Rightarrow> bytes" where
  "pack_12s bs = take 12 bs @ replicate (12 - length bs) 0"

definition struct_pack :: "pyval \<Rightarrow> pyval \<Rightarrow> pyval \<Rightarrow> pyval \<Rightarrow> bytes \<Rightarrow> error + bytes" where
  "struct_pack a b c d s =
     (case pack_uint 4 a of Inl e \<Rightarrow> Inl e | Inr ba \<Rightarrow>
       (case pack_uint 2 b of Inl e \<Rightarrow> Inl e | Inr bb \<Rightarrow>
         (case pack_uint 2 c of Inl e \<Rightarrow> Inl e | Inr bc \<Rightarrow>
           (case pack_uint 2 d of Inl e \<Rightarrow> Inl e | Inr bd \<Rightarrow>
              Inr (ba @ bb @ bc @ bd @ pack_12s s)))))"

definition struct_unpack :: "bytes \<Rightarrow> nat \<times> nat \<times> nat \<times> nat \<times> bytes" where
  "struct_unpack d =
     (le_value (take 4 d), le_value (take 2 (drop 4 d)), le_value (take 2 (drop 6 d)),
      le_value (take 2 (drop 8 d)), take 12 (drop 10 d))"

subsection \<open>Slicing, \<^verbatim>\<open>ljust\<close> and \<^verbatim>\<open>rstrip\<close> on bytes\<close>

definition slice_to :: "int \<Rightarrow> bytes \<Rightarrow> bytes" where
  "slice_to n bs = (if 0 \<le> n then take (nat n) bs else take (length bs - nat (- n)) bs)"

definition ljust :: "int \<Rightarrow> bytes \<Rightarrow> bytes" where
  "ljust n bs = bs @ replicate (nat n - length bs) 0"

definition rstrip_zero :: "bytes \<Rightarrow> bytes" where
  "rstrip_zero bs = rev (dropWhile (\<lambda>b. b = 0) (rev bs))"

section \<open>\<^verbatim>\<open>fmo_header.py\<close>\<close>

text \<open>
  An \<^verbatim>\<open>FMORawHeader\<close> instance has the five attributes set by \<^verbatim>\<open>__init__\<close>.  \<open>extra\<close> holds
  any further instance attribute stored by \<^verbatim>\<open>setattr\<close> (most recent first); such an
  attribute shadows the class attribute of the same name.
\<close>

record FMORawHeader =
  version :: pyval
  uid :: pyval
  callsign :: pyval
  padding1 :: pyval
  padding2 :: pyval
  extra :: "(string \<times> pyval) list"

definition VERSION_SIZE :: nat where "VERSION_SIZE = 4"
definition UID_SIZE :: nat where "UID_SIZE = 2"
definition CALLSIGN_SIZE :: nat where "CALLSIGN_SIZE = 12"
definition PADDING_SIZE_1 :: nat where "PADDING_SIZE_1 = 2"
definition PADDING_SIZE_2 :: nat where "PADDING_SIZE_2 = 2"

definition HEADER_SIZE :: nat where
  "HEADER_SIZE = VERSION_SIZE + PADDING_SIZE_1 + UID_SIZE + PADDING_SIZE_2 + CALLSIGN_SIZE"

definition init :: "pyval \<Rightarrow> pyval \<Rightarrow> pyval \<Rightarrow> pyval \<Rightarrow> pyval \<Rightarrow> FMORawHeader" where
  "init version' uid' callsign' padding1' padding2' =
     \<lparr>version = version', uid = uid', callsign = callsign',
      padding1 = padding1', padding2 = padding2', extra = []\<rparr>"

definition from_bytes :: "bytes \<Rightarrow> error + FMORawHeader" where
  "from_bytes data =
     (if length data < HEADER_SIZE then Inl ValueError
      else (case struct_unpack (take HEADER_SIZE data) of
        (version', padding1', uid', padding2', callsign_bytes) \<Rightarrow>
          Inr (init (PyInt (int version')) (PyInt (int uid'))
                 (PyStr (utf8_decode_replace (rstrip_zero callsign_bytes)))
                 (PyInt (int padding1')) (PyInt (int padding2')))))"

text \<open>
  \<^verbatim>\<open>self.CALLSIGN_SIZE\<close> reads the instance attribute when \<^verbatim>\<open>setattr\<close> has stored one, and
  the class constant otherwise.
\<close>

definition self_CALLSIGN_SIZE :: "FMORawHeader \<Rightarrow> pyval" where
  "self_CALLSIGN_SIZE h =
     (case map_of (extra h) ''CALLSIGN_SIZE'' of
        None \<Rightarrow> PyInt (int CALLSIGN_SIZE)
      | Some v \<Rightarrow> v)"

definition to_bytes :: "FMORawHeader \<Rightarrow> error + bytes" where
  "to_bytes h =
     (case callsign h of
        PyInt _ \<Rightarrow> Inl AttributeError
      | PyStr s \<Rightarrow>
        (case utf8_encode s of
           Inl e \<Rightarrow> Inl e
         | Inr encoded \<Rightarrow>
           (case self_CALLSIGN_SIZE h of
              PyStr _ \<Rightarrow> Inl TypeError
            | PyInt n \<Rightarrow>
                let callsign_encoded = slice_to n encoded;
                    callsign_padded = ljust n callsign_encoded
                in struct_pack (version h) (padding1 h) (uid h) (padding2 h) callsign_padded)))"

text \<open>
  \<^verbatim>\<open>hasattr(header, key)\<close> holds for the instance attributes, for every name bound in the
  class body, and for the names each instance inherits from \<^verbatim>\<open>object\<close> (CPython 3.11).
\<close>

definition instance_attrs :: "string list" where
  "instance_attrs = [''version'', ''uid'', ''callsign'', ''padding1'', ''padding2'']"

definition class_attrs :: "string list" where
  "class_attrs =
     [''VERSION_SIZE'', ''UID_SIZE'', ''CALLSIGN_SIZE'', ''PADDING_SIZE_1'', ''PADDING_SIZE_2'',
      ''HEADER_SIZE'', ''__init__'', ''from_bytes'', ''to_bytes'', ''__repr__'']"

definition object_attrs :: "string list" where
  "object_attrs =
     [''__class__'', ''__delattr__'', ''__dict__'', ''__dir__'', ''__doc__'', ''__eq__'',
      ''__format__'', ''__ge__'', ''__getattribute__'', ''__getstate__'', ''__gt__'',
      ''__hash__'', ''__init_subclass__'', ''__le__'', ''__lt__'', ''__module__'', ''__ne__'',
      ''__new__'', ''__reduce__'', ''__reduce_ex__'', ''__setattr__'', ''__sizeof__'',
      ''__str__'', ''__subclasshook__'', ''__weakref__'']"

definition hasattr :: "FMORawHeader \<Rightarrow> string \<Rightarrow> bool" where
  "hasattr h key =
     (key \<in> set instance_attrs \<or> key \<in> set (map fst (extra h))
      \<or> key \<in> set class_attrs \<or> key \<in> set object_attrs)"

text \<open>
  \<^verbatim>\<open>setattr\<close> on one of the five fields replaces the field.  \<^verbatim>\<open>__class__\<close> and
  \<^verbatim>\<open>__dict__\<close> refuse an integer or a string with \<^verbatim>\<open>TypeError\<close>, \<^verbatim>\<open>__weakref__\<close> is not
  writable (\<^verbatim>\<open>AttributeError\<close>); any other name becomes an instance attribute.
\<close>

definition setattr :: "FMORawHeader \<Rightarrow> string \<Rightarrow> pyval \<Rightarrow> error + FMORawHeader" where
  "setattr h key v =
     (if key = ''version'' then Inr (h\<lparr>version := v\<rparr>)
      else if key = ''uid'' then Inr (h\<lparr>uid := v\<rparr>)
      else if key = ''callsign'' then Inr (h\<lparr>callsign := v\<rparr>)
      else if key = ''padding1'' then Inr (h\<lparr>padding1 := v\<rparr>)
      else if key = ''padding2'' then Inr (h\<lparr>padding2 := v\<rparr>)
      else if key = ''__class__'' \<or> key = ''__dict__'' then Inl TypeError
      else if key = ''__weakref__'' then Inl AttributeError
      else Inr (h\<lparr>extra := (key, v) # extra h\<rparr>))"

text \<open>The loop over \<^verbatim>\<open>updates.items()\<close>: the first failing key ends it.\<close>

fun apply_updates :: "FMORawHeader \<Rightarrow> (string \<times> pyval) list \<Rightarrow> error + FMORawHeader" where
  "apply_updates h [] = Inr h"
| "apply_updates h ((key, v) # rest) =
     (if \<not> hasattr h key then Inl AttributeError
      else (case setattr h key v of
              Inl e \<Rightarrow> Inl e
            | Inr h' \<Rightarrow> apply_updates h' rest))"

text \<open>
  \<^verbatim>\<open>header.to_bytes()\<close> calls the instance attribute \<^verbatim>\<open>to_bytes\<close> when an update has stored
  one; an integer or a string is not callable (\<^verbatim>\<open>TypeError\<close>).
\<close>

definition call_to_bytes :: "FMORawHeader \<Rightarrow> error + bytes" where
  "call_to_bytes h =
     (case map_of (extra h) ''to_bytes'' of
        None \<Rightarrow> to_bytes h
      | Some _ \<Rightarrow> Inl TypeError)"

definition replace_header_in_stream :: "bytes \<Rightarrow> (string \<times> pyval) list \<Rightarrow> error + bytes" where
  "replace_header_in_stream stream updates =
     (case from_bytes stream of
        Inl e \<Rightarrow> Inl e
      | Inr header \<Rightarrow>
        (case apply_updates header updates of
           Inl e \<Rightarrow> Inl e
         | Inr header' \<Rightarrow>
           (case call_to_bytes header' of
              Inl e \<Rightarrow> Inl e
            | Inr new_header \<Rightarrow>
                let payload = drop HEADER_SIZE stream
                in Inr (new_header @ payload))))"

section \<open>\<^verbatim>\<open>fmo_echo_service.py\<close>\<close>

text \<open>
  The configuration values the service reads: \<^verbatim>\<open>config['echo']['timeout']\<close>,
  \<^verbatim>\<open>config['echo']['uid']\<close>, \<^verbatim>\<open>config['echo']['callsign_prefix']\<close> and
  \<^verbatim>\<open>config['topics']['publish']\<close>.  The service state touched by the message path is the
  buffer and the time of the last accepted message (\<^verbatim>\<open>None\<close> until one arrives).
  \<^verbatim>\<open>time.time()\<close> is passed in as \<open>now\<close>.
\<close>

record config =
  echo_timeout :: real
  echo_uid :: int
  echo_callsign_prefix :: str
  topics_publish :: string

record FMOEchoService =
  message_buffer :: "bytes list"
  last_message_time :: "real option"

text \<open>
  The body of the \<^verbatim>\<open>try\<close> block of \<^verbatim>\<open>_on_message\<close>, and the handler itself, whose
  \<^verbatim>\<open>except Exception\<close> clause logs the error and returns normally.
\<close>

definition on_message_try :: "config \<Rightarrow> real \<Rightarrow> bytes \<Rightarrow> FMOEchoService \<Rightarrow> error + FMOEchoService" where
  "on_message_try cfg now payload s =
     (case from_bytes payload of
        Inl e \<Rightarrow> Inl e
      | Inr header \<Rightarrow>
          if uid header = PyInt (echo_uid cfg) then Inr s
          else Inr (s\<lparr>message_buffer := message_buffer s @ [payload],
                     last_message_time := Some now\<rparr>))"

definition on_message :: "config \<Rightarrow> real \<Rightarrow> bytes \<Rightarrow> FMOEchoService \<Rightarrow> error + FMOEchoService" where
  "on_message cfg now payload s =
     (case on_message_try cfg now payload s of
        Inl e \<Rightarrow> Inr s
      | Inr s' \<Rightarrow> Inr s')"

text \<open>
  The f-string \<^verbatim>\<open>f"{prefix}{original_header.callsign}"\<close> formats the callsign with
  \<^verbatim>\<open>str()\<close>: a string is itself, an integer is its decimal digits.
\<close>

fun digits :: "nat \<Rightarrow> str" where
  "digits n = (if n < 10 then [48 + n] else digits (n div 10) @ [48 + n mod 10])"

declare digits.simps [simp del]

fun py_str :: "pyval \<Rightarrow> str" where
  "py_str (PyStr s) = s"
| "py_str (PyInt i) = (if i < 0 then 45 # digits (nat (- i)) else digits (nat i))"

text \<open>
  \<^verbatim>\<open>mqtt_client.publish\<close> belongs to the transport: it is a parameter that maps the
  transport's state, the topic and the packet to a result and a new transport state.  The
  result either carries a return code or is an exception raised by the call.
\<close>

datatype publish_result = Rc int | PublishRaised

type_synonym 'net publish = "'net \<Rightarrow> string \<Rightarrow> bytes \<Rightarrow> publish_result \<times> 'net"

definition MQTT_ERR_SUCCESS :: int where
  "MQTT_ERR_SUCCESS = 0"

text \<open>
  One iteration of the loop of \<^verbatim>\<open>_replay_messages\<close>.  \<open>modify_msg\<close> is the part of the
  \<^verbatim>\<open>try\<close> body before the publish call: parse the original header, build the new callsign,
  rewrite the header.  \<open>replay_one\<close> returns \<open>True\<close> when the iteration increments
  \<^verbatim>\<open>success_count\<close> and \<open>False\<close> when it increments \<^verbatim>\<open>fail_count\<close>.
\<close>

definition modify_msg :: "config \<Rightarrow> bytes \<Rightarrow> error + bytes" where
  "modify_msg cfg msg_data =
     (case from_bytes msg_data of
        Inl e \<Rightarrow> Inl e
      | Inr original_header \<Rightarrow>
          let new_callsign = echo_callsign_prefix cfg @ py_str (callsign original_header)
          in replace_header_in_stream msg_data
               [(''uid'', PyInt (echo_uid cfg)), (''callsign'', PyStr new_callsign)])"

definition replay_one :: "'net publish \<Rightarrow> config \<Rightarrow> bytes \<Rightarrow> 'net \<Rightarrow> bool \<times> 'net" where
  "replay_one publish cfg msg_data net =
     (case modify_msg cfg msg_data of
        Inl e \<Rightarrow> (False, net)
      | Inr modified_msg \<Rightarrow>
          (case publish net (topics_publish cfg) modified_msg of
             (Rc rc, net') \<Rightarrow> (rc = MQTT_ERR_SUCCESS, net')
           | (PublishRaised, net') \<Rightarrow> (False, net')))"

fun replay_loop :: "'net publish \<Rightarrow> config \<Rightarrow> bytes list \<Rightarrow> nat \<Rightarrow> nat \<Rightarrow> 'net \<Rightarrow> nat \<times> nat \<times> 'net" where
  "replay_loop publish cfg [] success_count fail_count net = (success_count, fail_count, net)"
| "replay_loop publish cfg (msg_data # rest) success_count fail_count net =
     (case replay_one publish cfg msg_data net of
        (True, net') \<Rightarrow> replay_loop publish cfg rest (success_count + 1) fail_count net'
      | (False, net') \<Rightarrow> replay_loop publish cfg rest success_count (fail_count + 1) net')"

text \<open>
  \<^verbatim>\<open>_replay_messages\<close> ends by logging the success count, the failure count and the buffer
  length; the model returns that report together with the transport state.
\<close>

definition replay_messages :: "'net publish \<Rightarrow> config \<Rightarrow> FMOEchoService \<Rightarrow> 'net \<Rightarrow> (nat \<times> nat \<times> nat) \<times> 'net" where
  "replay_messages publish cfg s net =
     (case replay_loop publish cfg (message_buffer s) 0 0 net of
        (success_count, fail_count, net') \<Rightarrow>
          ((success_count, fail_count, length (message_buffer s)), net'))"

definition check_timeout ::
  "'net publish \<Rightarrow> config \<Rightarrow> real \<Rightarrow> FMOEchoService \<Rightarrow> 'net
     \<Rightarrow> FMOEchoService \<times> 'net \<times> (nat \<times> nat \<times> nat) option" where
  "check_timeout publish cfg now s net =
     (case last_message_time s of
        None \<Rightarrow> (s, net, None)
      | Some t \<Rightarrow>
          let elapsed = now - t in
          if elapsed > echo_timeout cfg then
            (let (net', report) =
                   (if message_buffer s \<noteq> [] then
                      (case replay_messages publish cfg s net of
                         (r, net'') \<Rightarrow> (net'', Some r))
                    else (net, None))
             in (s\<lparr>message_buffer := [], last_message_time := None\<rparr>, net', report))
          else (s, net, None))"

text \<open>
  The transport used by the repository's message-flow test (\<^verbatim>\<open>MockMQTTClient\<close>): it
  appends every call to the list \<^verbatim>\<open>published\<close>.  The result of the call number \<open>i\<close>
  (from 0) is \<open>outcome i\<close>; the test's mock always returns return code 0.
\<close>

definition mock_publish :: "(nat \<Rightarrow> publish_result) \<Rightarrow> (string \<times> bytes) list publish" where
  "mock_publish outcome published topic payload =
     (outcome (length published), published @ [(topic, payload)])"

section \<open>Well-typed values and the inputs of the examples\<close>

text \<open>
  The values a header field takes in the packet format: \<^verbatim>\<open>version\<close> is an unsigned 32-bit
  integer, \<^verbatim>\<open>uid\<close>, \<^verbatim>\<open>padding1\<close> and \<^verbatim>\<open>padding2\<close> are unsigned 16-bit integers, and
  \<^verbatim>\<open>callsign\<close> is text (a string of Unicode scalar values).
\<close>

definition uint_value :: "nat \<Rightarrow> pyval \<Rightarrow> bool" where
  "uint_value n v = (case v of PyInt i \<Rightarrow> 0 \<le> i \<and> i < 256 ^ n | PyStr _ \<Rightarrow> False)"

definition text_value :: "pyval \<Rightarrow> bool" where
  "text_value v = (case v of PyInt _ \<Rightarrow> False | PyStr s \<Rightarrow> list_all scalar_value s)"

definition well_typed :: "FMORawHeader \<Rightarrow> bool" where
  "well_typed h =
     (uint_value 4 (version h) \<and> uint_value 2 (uid h) \<and> text_value (callsign h)
      \<and> uint_value 2 (padding1 h) \<and> uint_value 2 (padding2 h) \<and> extra h = [])"

text \<open>An update of one of the five header fields with a value of the field's type.\<close>

definition field_update :: "string \<times> pyval \<Rightarrow> bool" where
  "field_update kv =
     (case kv of (key, v) \<Rightarrow>
        if key = ''version'' then uint_value 4 v
        else if key = ''callsign'' then text_value v
        else if key = ''uid'' \<or> key = ''padding1'' \<or> key = ''padding2'' then uint_value 2 v
        else False)"

text \<open>
  The checks \<^verbatim>\<open>validate_config\<close> makes on the \<^verbatim>\<open>echo\<close> section: a positive timeout, a
  uid between 0 and 65535, a string prefix (here: text).
\<close>

definition valid_config :: "config \<Rightarrow> bool" where
  "valid_config cfg =
     (0 < echo_timeout cfg \<and> 0 \<le> echo_uid cfg \<and> echo_uid cfg \<le> 65535
      \<and> list_all scalar_value (echo_callsign_prefix cfg))"

text \<open>The state with an empty buffer and no timestamp.\<close>

definition idle :: FMOEchoService where
  "idle = \<lparr>message_buffer = [], last_message_time = None\<rparr>"

text \<open>
  The publish calls a replay of \<open>buffer\<close> makes, in order: one for each packet whose header
  rewrite succeeds.
\<close>

definition attempts :: "config \<Rightarrow> bytes list \<Rightarrow> (string \<times> bytes) list" where
  "attempts cfg buffer =
     List.map_filter
       (\<lambda>m. case modify_msg cfg m of Inl e \<Rightarrow> None | Inr r \<Rightarrow> Some (topics_publish cfg, r))
       buffer"

text \<open>ASCII text as a Python string.\<close>

definition ascii :: "string \<Rightarrow> str" where
  "ascii cs = map of_char cs"

text \<open>
  The packet of the concrete scenario: version 1, uid 441, callsign \<^verbatim>\<open>BD8BOJ\<close>, payload
  \<^verbatim>\<open>DE AD BE EF\<close>; and the default configuration of \<^verbatim>\<open>config.py\<close>.
\<close>

definition example_packet :: bytes where
  "example_packet =
     [0x01, 0x00, 0x00, 0x00,  0x00, 0x00,  0xB9, 0x01,  0x00, 0x00,
      0x42, 0x44, 0x38, 0x42, 0x4F, 0x4A, 0x00, 0x00, 0x00, 0x00, 0x00, 0x00,
      0xDE, 0xAD, 0xBE, 0xEF]"

definition example_replayed :: bytes where
  "example_replayed =
     [0x01, 0x00, 0x00, 0x00,  0x00, 0x00,  0xFF, 0xFF,  0x00, 0x00,
      0x52, 0x45, 0x3E, 0x42, 0x44, 0x38, 0x42, 0x4F, 0x4A, 0x00, 0x00, 0x00,
      0xDE, 0xAD, 0xBE, 0xEF]"

definition DEFAULT_CONFIG :: config where
  "DEFAULT_CONFIG =
     \<lparr>echo_timeout = 5, echo_uid = 65535, echo_callsign_prefix = ascii ''RE>'',
      topics_publish = ''FMO/RAW''\<rparr>"

text \<open>
  Two callsigns at the edge of the field: eleven letters \<^verbatim>\<open>A\<close> followed by U+00E9 (thirteen
  bytes of UTF-8, the twelfth and thirteenth encoding U+00E9), and the letter \<^verbatim>\<open>A\<close>
  followed by the character U+0000.
\<close>

definition split_callsign :: str where
  "split_callsign =
     [0x41, 0x41, 0x41, 0x41, 0x41, 0x41, 0x41, 0x41, 0x41, 0x41, 0x41, 0xE9]"

definition nul_callsign :: str where
  "nul_callsign = [0x41, 0]"

section \<open>Lemmas: the UTF-8 codec\<close>

lemma unat_byte_less: "unat (b :: byte) < 256"
  using unsigned_less [of b, where ?'a = nat] by simp

lemma unat_of_nat_byte: "n < 256 \<Longrightarrow> unat (of_nat n :: byte) = n"
  by (simp add: unat_of_nat)

lemma decode_ascii:
  "unat b0 < 0x80 \<Longrightarrow> utf8_decode_replace (b0 # bs) = unat b0 # utf8_decode_replace bs"
  by simp

lemma decode_two:
  "\<lbrakk>0xC2 \<le> unat b0; unat b0 < 0xE0; is_cont b1\<rbrakk> \<Longrightarrow>
   utf8_decode_replace (b0 # b1 # r) =
     ((unat b0 - 0xC0) * 64 + cont_bits b1) # utf8_decode_replace r"
  by (simp add: valid_second_def)

lemma decode_three:
  "\<lbrakk>0xE0 \<le> unat b0; unat b0 < 0xF0; valid_second (unat b0) b1; is_cont b2\<rbrakk> \<Longrightarrow>
   utf8_decode_replace (b0 # b1 # b2 # r) =
     ((unat b0 - 0xE0) * 4096 + cont_bits b1 * 64 + cont_bits b2) # utf8_decode_replace r"
  by simp

lemma decode_four:
  "\<lbrakk>0xF0 \<le> unat b0; unat b0 < 0xF5; valid_second (unat b0) b1; is_cont b2; is_cont b3\<rbrakk> \<Longrightarrow>
   utf8_decode_replace (b0 # b1 # b2 # b3 # r) =
     ((unat b0 - 0xF0) * 262144 + cont_bits b1 * 4096 + cont_bits b2 * 64 + cont_bits b3)
       # utf8_decode_replace r"
  by simp

declare utf8_decode_replace.simps(2) [simp del]

lemma split3: "(c::nat) = (c div 4096) * 4096 + (c div 64 mod 64) * 64 + c mod 64"
proof -
  have "c div 4096 = c div 64 div 64" by (simp add: div_mult2_eq [symmetric])
  then have "c div 64 = (c div 4096) * 64 + c div 64 mod 64" by simp
  moreover have "c = (c div 64) * 64 + c mod 64" by simp
  ultimately show ?thesis by linarith
qed

lemma split4: "(c::nat) = (c div 262144) * 262144 + (c div 4096 mod 64) * 4096 + (c div 64 mod 64) * 64 + c mod 64"
proof -
  have "c div 262144 = c div 4096 div 64" by (simp add: div_mult2_eq [symmetric])
  then have "c div 4096 = (c div 262144) * 64 + c div 4096 mod 64" by simp
  moreover have "c = (c div 4096) * 4096 + (c div 64 mod 64) * 64 + c mod 64" by (rule split3)
  ultimately show ?thesis by linarith
qed


lemma cont_byte_props:
  assumes "d < 64"
  shows "is_cont (cont_byte d)" and "cont_bits (cont_byte d) = d"
    and "unat (cont_byte d) = 0x80 + d"
proof -
  show u: "unat (cont_byte d) = 0x80 + d"
    unfolding cont_byte_def using assms by (intro unat_of_nat_byte) simp
  show "is_cont (cont_byte d)" unfolding is_cont_def u using assms by simp
  show "cont_bits (cont_byte d) = d" unfolding cont_bits_def u by simp
qed

lemma decode_encode_cp1:
  assumes "c < 0x80"
  shows "utf8_decode_replace (encode_cp c @ rest) = c # utf8_decode_replace rest"
  using assms by (simp add: encode_cp_def unat_of_nat_byte decode_ascii)

lemma decode_encode_cp2:
  assumes "0x80 \<le> c" "c < 0x800"
  shows "utf8_decode_replace (encode_cp c @ rest) = c # utf8_decode_replace rest"
proof -
  define a where "a = c div 64"
  define d where "d = c mod 64"
  have c: "a * 64 + d = c" and a: "2 \<le> a" "a < 32" and d: "d < 64"
    using assms by (auto simp: a_def d_def)
  define B0 :: byte where "B0 = of_nat (0xC0 + a)"
  have e: "encode_cp c = [B0, cont_byte d]"
    unfolding encode_cp_def B0_def a_def d_def using assms by simp
  have u0: "unat B0 = 0xC0 + a" unfolding B0_def using a by (intro unat_of_nat_byte) simp
  have "utf8_decode_replace (B0 # cont_byte d # rest) =
          ((unat B0 - 0xC0) * 64 + cont_bits (cont_byte d)) # utf8_decode_replace rest"
    using a cont_byte_props(1) [OF d] by (intro decode_two) (simp_all add: u0)
  then show ?thesis
    unfolding e by (simp add: u0 cont_byte_props(2) [OF d] c)
qed

lemma decode_encode_cp3:
  assumes "0x800 \<le> c" "c < 0x10000" "\<not> is_surrogate c"
  shows "utf8_decode_replace (encode_cp c @ rest) = c # utf8_decode_replace rest"
proof -
  define a where "a = c div 4096"
  define b where "b = c div 64 mod 64"
  define d where "d = c mod 64"
  have c: "a * 4096 + b * 64 + d = c" unfolding a_def b_def d_def by (rule split3 [symmetric])
  have a: "a < 16" and b: "b < 64" and d: "d < 64"
    using assms by (auto simp: a_def b_def d_def)
  have ab0: "32 \<le> b" if "a = 0" using that assms(1) b d c by linarith
  have ab13: "b < 32" if "a = 13" using that assms(2,3) b d c unfolding is_surrogate_def by linarith
  define B0 :: byte where "B0 = of_nat (0xE0 + a)"
  have e: "encode_cp c = [B0, cont_byte b, cont_byte d]"
    unfolding encode_cp_def B0_def a_def b_def d_def using assms by simp
  have u0: "unat B0 = 0xE0 + a" unfolding B0_def using a by (intro unat_of_nat_byte) simp
  have v: "valid_second (unat B0) (cont_byte b)"
    unfolding valid_second_def u0 cont_byte_props(3) [OF b] using cont_byte_props(1) [OF b] a ab0 ab13 by auto
  have "utf8_decode_replace (B0 # cont_byte b # cont_byte d # rest) =
          ((unat B0 - 0xE0) * 4096 + cont_bits (cont_byte b) * 64 + cont_bits (cont_byte d))
            # utf8_decode_replace rest"
    using a v cont_byte_props(1) [OF d] by (intro decode_three) (simp_all add: u0)
  then show ?thesis
    unfolding e by (simp add: u0 cont_byte_props(2) [OF d] cont_byte_props(2) [OF b] c)
qed

lemma decode_encode_cp4:
  assumes "0x10000 \<le> c" "c < 0x110000"
  shows "utf8_decode_replace (encode_cp c @ rest) = c # utf8_decode_replace rest"
proof -
  define a where "a = c div 262144"
  define b where "b = c div 4096 mod 64"
  define b' where "b' = c div 64 mod 64"
  define d where "d = c mod 64"
  have c: "a * 262144 + b * 4096 + b' * 64 + d = c"
    unfolding a_def b_def b'_def d_def by (rule split4 [symmetric])
  have a: "a < 5" and b: "b < 64" and b': "b' < 64" and d: "d < 64"
    using assms by (auto simp: a_def b_def b'_def d_def)
  have ab0: "16 \<le> b" if "a = 0" using that assms(1) b b' d c by linarith
  have ab4: "b < 16" if "a = 4" using that assms(2) b b' d c by linarith
  define B0 :: byte where "B0 = of_nat (0xF0 + a)"
  have e: "encode_cp c = [B0, cont_byte b, cont_byte b', cont_byte d]"
    unfolding encode_cp_def B0_def a_def b_def b'_def d_def using assms by simp
  have u0: "unat B0 = 0xF0 + a" unfolding B0_def using a by (intro unat_of_nat_byte) simp
  have v: "valid_second (unat B0) (cont_byte b)"
    unfolding valid_second_def u0 cont_byte_props(3) [OF b] using cont_byte_props(1) [OF b] a ab0 ab4 by auto
  have "utf8_decode_replace (B0 # cont_byte b # cont_byte b' # cont_byte d # rest) =
          ((unat B0 - 0xF0) * 262144 + cont_bits (cont_byte b) * 4096
            + cont_bits (cont_byte b') * 64 + cont_bits (cont_byte d))
            # utf8_decode_replace rest"
    using a v cont_byte_props(1) [OF d] cont_byte_props(1) [OF b']
    by (intro decode_four) (simp_all add: u0)
  then show ?thesis
    unfolding e
    by (simp add: u0 cont_byte_props(2) [OF d] cont_byte_props(2) [OF b] cont_byte_props(2) [OF b'] c)
qed

lemma decode_encode_cp:
  assumes "scalar_value c"
  shows "utf8_decode_replace (encode_cp c @ rest) = c # utf8_decode_replace rest"
proof -
  consider "c < 0x80" | "0x80 \<le> c" "c < 0x800" | "0x800 \<le> c" "c < 0x10000" | "0x10000 \<le> c"
    by linarith
  then show ?thesis
  proof cases
    case 1 then show ?thesis by (rule decode_encode_cp1)
  next
    case 2 then show ?thesis by (rule decode_encode_cp2)
  next
    case 3 with assms show ?thesis by (intro decode_encode_cp3) (auto simp: scalar_value_def)
  next
    case 4 with assms show ?thesis by (intro decode_encode_cp4) (auto simp: scalar_value_def)
  qed
qed


lemma digit_div: "r < (n::nat) \<Longrightarrow> (q * n + r) div n = q"
  by simp

lemma digit_mod: "r < (n::nat) \<Longrightarrow> (q * n + r) mod n = r"
  by simp

lemma of_nat_unat_byte: "of_nat (unat b) = (b :: byte)"
  by simp

lemma cont_byte_cont_bits: "is_cont b \<Longrightarrow> cont_byte (cont_bits b) = b"
  unfolding cont_byte_def cont_bits_def is_cont_def by simp

lemma cont_bits_less: "is_cont b \<Longrightarrow> cont_bits b < 64"
  unfolding cont_bits_def is_cont_def by auto

lemma encode_two:
  assumes "0xC2 \<le> unat b0" "unat b0 < 0xE0" "is_cont b1"
  defines "c \<equiv> (unat b0 - 0xC0) * 64 + cont_bits b1"
  shows "encode_cp c = [b0, b1]" and "scalar_value c" and "0x80 \<le> c"
proof -
  define a where "a = unat b0 - 0xC0"
  define d where "d = cont_bits b1"
  have a: "2 \<le> a" "a < 32" and d: "d < 64"
    using assms(1,2) cont_bits_less [OF assms(3)] by (simp_all add: a_def d_def)
  have c: "c = a * 64 + d" by (simp add: c_def a_def d_def)
  have dm: "c div 64 = a" "c mod 64 = d"
    unfolding c by (rule digit_div [OF d], rule digit_mod [OF d])
  show lo: "0x80 \<le> c" using a unfolding c by simp
  have hi: "c < 0x800" using a d unfolding c by simp
  show "scalar_value c" using hi by (simp add: scalar_value_def is_surrogate_def)
  have "of_nat (0xC0 + a) = b0"
    using assms(1) of_nat_unat_byte [of b0] unfolding a_def by simp
  moreover have "cont_byte d = b1" unfolding d_def by (rule cont_byte_cont_bits [OF assms(3)])
  ultimately show "encode_cp c = [b0, b1]"
    using lo hi unfolding encode_cp_def dm by simp
qed

lemma encode_three:
  assumes "0xE0 \<le> unat b0" "unat b0 < 0xF0" "valid_second (unat b0) b1" "is_cont b2"
  defines "c \<equiv> (unat b0 - 0xE0) * 4096 + cont_bits b1 * 64 + cont_bits b2"
  shows "encode_cp c = [b0, b1, b2]" and "scalar_value c" and "0x80 \<le> c"
proof -
  define a where "a = unat b0 - 0xE0"
  define b where "b = cont_bits b1"
  define d where "d = cont_bits b2"
  have c1: "is_cont b1" using assms(3) by (simp add: valid_second_def)
  have a: "a < 16" and b: "b < 64" and d: "d < 64"
    using assms(1,2) cont_bits_less [OF c1] cont_bits_less [OF assms(4)]
    by (simp_all add: a_def b_def d_def)
  have ub: "unat b1 = 0x80 + b" using c1 by (simp add: b_def cont_bits_def is_cont_def)
  have ua: "unat b0 = 0xE0 + a" using assms(1) by (simp add: a_def)
  have ab0: "32 \<le> b" if "a = 0" using that assms(3) unfolding valid_second_def ua ub by simp
  have ab13: "b < 32" if "a = 13" using that assms(3) unfolding valid_second_def ua ub by simp
  have c: "c = a * 4096 + b * 64 + d" by (simp add: c_def a_def b_def d_def)
  have c': "c = (a * 64 + b) * 64 + d" unfolding c by simp
  have c'': "c = a * 4096 + (b * 64 + d)" unfolding c by simp
  have q0: "c div 64 = a * 64 + b" and m0: "c mod 64 = d"
    unfolding c' by (rule digit_div [OF d], rule digit_mod [OF d])
  have m1: "c div 64 mod 64 = b" unfolding q0 by (rule digit_mod [OF b])
  have "b * 64 + d < 4096" using b d by simp
  then have d0: "c div 4096 = a" unfolding c'' by (rule digit_div)
  have lo: "0x800 \<le> c" using ab0 unfolding c by (cases "a = 0") simp_all
  then show "0x80 \<le> c" by simp
  have hi: "c < 0x10000" using a b d unfolding c by simp
  have "\<not> is_surrogate c"
    using ab13 a b d unfolding c is_surrogate_def by (cases "a = 13") auto
  then show "scalar_value c" using hi by (simp add: scalar_value_def)
  have "of_nat (0xE0 + a) = b0"
    using of_nat_unat_byte [of b0] unfolding ua by simp
  moreover have "cont_byte b = b1" unfolding b_def by (rule cont_byte_cont_bits [OF c1])
  moreover have "cont_byte d = b2" unfolding d_def by (rule cont_byte_cont_bits [OF assms(4)])
  ultimately show "encode_cp c = [b0, b1, b2]"
    using lo hi unfolding encode_cp_def d0 m0 m1 by simp
qed

lemma encode_four:
  assumes "0xF0 \<le> unat b0" "unat b0 < 0xF5" "valid_second (unat b0) b1" "is_cont b2" "is_cont b3"
  defines "c \<equiv> (unat b0 - 0xF0) * 262144 + cont_bits b1 * 4096 + cont_bits b2 * 64 + cont_bits b3"
  shows "encode_cp c = [b0, b1, b2, b3]" and "scalar_value c" and "0x80 \<le> c"
proof -
  define a where "a = unat b0 - 0xF0"
  define b where "b = cont_bits b1"
  define b' where "b' = cont_bits b2"
  define d where "d = cont_bits b3"
  have c1: "is_cont b1" using assms(3) by (simp add: valid_second_def)
  have a: "a < 5" and b: "b < 64" and b': "b' < 64" and d: "d < 64"
    using assms(1,2) cont_bits_less [OF c1] cont_bits_less [OF assms(4)] cont_bits_less [OF assms(5)]
    by (simp_all add: a_def b_def b'_def d_def)
  have ub: "unat b1 = 0x80 + b" using c1 by (simp add: b_def cont_bits_def is_cont_def)
  have ua: "unat b0 = 0xF0 + a" using assms(1) by (simp add: a_def)
  have ab0: "16 \<le> b" if "a = 0" using that assms(3) unfolding valid_second_def ua ub by simp
  have ab4: "b < 16" if "a = 4" using that assms(3) unfolding valid_second_def ua ub by simp
  have c: "c = a * 262144 + b * 4096 + b' * 64 + d" by (simp add: c_def a_def b_def b'_def d_def)
  have c1': "c = ((a * 64 + b) * 64 + b') * 64 + d" unfolding c by simp
  have c2': "c = (a * 64 + b) * 4096 + (b' * 64 + d)" unfolding c by simp
  have c3': "c = a * 262144 + (b * 4096 + b' * 64 + d)" unfolding c by simp
  have q0: "c div 64 = (a * 64 + b) * 64 + b'" and m0: "c mod 64 = d"
    unfolding c1' by (rule digit_div [OF d], rule digit_mod [OF d])
  have m1: "c div 64 mod 64 = b'" unfolding q0 by (rule digit_mod [OF b'])
  have "b' * 64 + d < 4096" using b' d by simp
  then have q1: "c div 4096 = a * 64 + b" unfolding c2' by (rule digit_div)
  have m2: "c div 4096 mod 64 = b" unfolding q1 by (rule digit_mod [OF b])
  have "b * 4096 + b' * 64 + d < 262144" using b b' d by simp
  then have d0: "c div 262144 = a" unfolding c3' by (rule digit_div)
  have lo: "0x10000 \<le> c" using ab0 unfolding c by (cases "a = 0") simp_all
  then show "0x80 \<le> c" by simp
  have hi: "c < 0x110000" using ab4 a b b' d unfolding c by (cases "a = 4") simp_all
  show "scalar_value c" using lo hi by (simp add: scalar_value_def is_surrogate_def)
  have "of_nat (0xF0 + a) = b0"
    using of_nat_unat_byte [of b0] unfolding ua by simp
  moreover have "cont_byte b = b1" unfolding b_def by (rule cont_byte_cont_bits [OF c1])
  moreover have "cont_byte b' = b2" unfolding b'_def by (rule cont_byte_cont_bits [OF assms(4)])
  moreover have "cont_byte d = b3" unfolding d_def by (rule cont_byte_cont_bits [OF assms(5)])
  ultimately show "encode_cp c = [b0, b1, b2, b3]"
    using lo hi unfolding encode_cp_def d0 m0 m1 m2 by simp
qed


lemma utf8_encode_Cons_Inr:
  "utf8_encode (c # cs) = Inr bs \<longleftrightarrow>
     (\<not> is_surrogate c \<and> (\<exists>bs'. utf8_encode cs = Inr bs' \<and> bs = encode_cp c @ bs'))"
  by (auto split: sum.splits)

lemma utf8_encode_total:
  "list_all scalar_value s \<Longrightarrow> \<exists>bs. utf8_encode s = Inr bs"
  by (induction s) (auto simp: scalar_value_def)

lemma utf8_encode_Inl:
  "utf8_encode s = Inl e \<Longrightarrow> e = UnicodeEncodeError"
  by (induction s arbitrary: e) (auto split: if_splits sum.splits)

lemma utf8_decode_encode:
  "utf8_encode s = Inr bs \<Longrightarrow> list_all (\<lambda>c. c < 0x110000) s \<Longrightarrow> utf8_decode_replace bs = s"
proof (induction s arbitrary: bs)
  case Nil
  then show ?case by simp
next
  case (Cons c cs)
  from Cons.prems(1) obtain bs' where ns: "\<not> is_surrogate c"
    and e: "utf8_encode cs = Inr bs'" and bs: "bs = encode_cp c @ bs'"
    unfolding utf8_encode_Cons_Inr by blast
  have "scalar_value c" using ns Cons.prems(2) by (simp add: scalar_value_def)
  then have "utf8_decode_replace bs = c # utf8_decode_replace bs'"
    unfolding bs by (rule decode_encode_cp)
  moreover have "utf8_decode_replace bs' = cs" using Cons.IH [OF e] Cons.prems(2) by simp
  ultimately show ?case by simp
qed

text \<open>One step of the decoder.\<close>

lemma scalar_REPLACEMENT: "scalar_value REPLACEMENT"
  by (simp add: scalar_value_def REPLACEMENT_def is_surrogate_def)

lemma decode_step:
  assumes "bs \<noteq> []"
  shows "\<exists>k c. 0 < k \<and> k \<le> length bs
            \<and> utf8_decode_replace bs = c # utf8_decode_replace (drop k bs)
            \<and> scalar_value c
            \<and> (c \<noteq> REPLACEMENT \<longrightarrow> encode_cp c = take k bs)"
proof -
  let ?P = "\<lambda>k c. 0 < k \<and> k \<le> length bs
            \<and> utf8_decode_replace bs = c # utf8_decode_replace (drop k bs)
            \<and> scalar_value c
            \<and> (c \<noteq> REPLACEMENT \<longrightarrow> encode_cp c = take k bs)"
  from assms obtain b0 r0 where bs: "bs = b0 # r0" by (cases bs) auto
  define c0 where "c0 = unat b0"
  note sim = utf8_decode_replace.simps(2) Let_def c0_def [symmetric]
  consider (ascii) "c0 < 0x80"
    | (bad) "0x80 \<le> c0" "c0 < 0xC2 \<or> 0xF5 \<le> c0"
    | (two) "0xC2 \<le> c0" "c0 < 0xE0"
    | (three) "0xE0 \<le> c0" "c0 < 0xF0"
    | (four) "0xF0 \<le> c0" "c0 < 0xF5"
    by linarith
  then show ?thesis
  proof cases
    case ascii
    then have "?P 1 c0"
      unfolding bs
      by (simp add: sim scalar_value_def is_surrogate_def encode_cp_def)
        (simp add: c0_def)
    then show ?thesis by blast
  next
    case bad
    then have "?P 1 REPLACEMENT"
      unfolding bs by (auto simp add: sim scalar_REPLACEMENT)
    then show ?thesis by blast
  next
    case two
    show ?thesis
    proof (cases r0)
      case Nil
      then have "?P 1 REPLACEMENT" unfolding bs using two by (simp add: sim scalar_REPLACEMENT)
      then show ?thesis by blast
    next
      case (Cons b1 r1)
      show ?thesis
      proof (cases "valid_second c0 b1")
        case False
        then have "?P 1 REPLACEMENT"
          unfolding bs Cons using two by (simp add: sim scalar_REPLACEMENT)
        then show ?thesis by blast
      next
        case True
        then have c1: "is_cont b1" by (simp add: valid_second_def)
        have "?P 2 ((c0 - 0xC0) * 64 + cont_bits b1)"
          unfolding bs Cons c0_def
          using two c1 encode_two [of b0 b1] decode_two [of b0 b1 r1]
          by (simp add: c0_def)
        then show ?thesis by blast
      qed
    qed
  next
    case three
    show ?thesis
    proof (cases r0)
      case Nil
      then have "?P 1 REPLACEMENT" unfolding bs using three by (simp add: sim scalar_REPLACEMENT)
      then show ?thesis by blast
    next
      case r0: (Cons b1 r1)
      show ?thesis
      proof (cases "valid_second c0 b1")
        case False
        then have "?P 1 REPLACEMENT"
          unfolding bs r0 using three by (simp add: sim scalar_REPLACEMENT)
        then show ?thesis by blast
      next
        case v: True
        show ?thesis
        proof (cases r1)
          case Nil
          then have "?P 2 REPLACEMENT"
            unfolding bs r0 using three v by (simp add: sim scalar_REPLACEMENT)
          then show ?thesis by blast
        next
          case r1: (Cons b2 r2)
          show ?thesis
          proof (cases "is_cont b2")
            case False
            then have "?P 2 REPLACEMENT"
              unfolding bs r0 r1 using three v by (simp add: sim scalar_REPLACEMENT)
            then show ?thesis by blast
          next
            case True
            have "?P 3 ((c0 - 0xE0) * 4096 + cont_bits b1 * 64 + cont_bits b2)"
              unfolding bs r0 r1 c0_def
              using three v True encode_three [of b0 b1 b2] decode_three [of b0 b1 b2 r2]
              by (simp add: c0_def)
            then show ?thesis by blast
          qed
        qed
      qed
    qed
  next
    case four
    show ?thesis
    proof (cases r0)
      case Nil
      then have "?P 1 REPLACEMENT" unfolding bs using four by (simp add: sim scalar_REPLACEMENT)
      then show ?thesis by blast
    next
      case r0: (Cons b1 r1)
      show ?thesis
      proof (cases "valid_second c0 b1")
        case False
        then have "?P 1 REPLACEMENT"
          unfolding bs r0 using four by (simp add: sim scalar_REPLACEMENT)
        then show ?thesis by blast
      next
        case v: True
        show ?thesis
        proof (cases r1)
          case Nil
          then have "?P 2 REPLACEMENT"
            unfolding bs r0 using four v by (simp add: sim scalar_REPLACEMENT)
          then show ?thesis by blast
        next
          case r1: (Cons b2 r2)
          show ?thesis
          proof (cases "is_cont b2")
            case False
            then have "?P 2 REPLACEMENT"
              unfolding bs r0 r1 using four v by (simp add: sim scalar_REPLACEMENT)
            then show ?thesis by blast
          next
            case c2: True
            show ?thesis
            proof (cases r2)
              case Nil
              then have "?P 3 REPLACEMENT"
                unfolding bs r0 r1 using four v c2 by (simp add: sim scalar_REPLACEMENT)
              then show ?thesis by blast
            next
              case r2: (Cons b3 r3)
              show ?thesis
              proof (cases "is_cont b3")
                case False
                then have "?P 3 REPLACEMENT"
                  unfolding bs r0 r1 r2 using four v c2 by (simp add: sim scalar_REPLACEMENT)
                then show ?thesis by blast
              next
                case True
                have "?P 4 ((c0 - 0xF0) * 262144 + cont_bits b1 * 4096 + cont_bits b2 * 64
                              + cont_bits b3)"
                  unfolding bs r0 r1 r2 c0_def
                  using four v c2 True encode_four [of b0 b1 b2 b3]
                    decode_four [of b0 b1 b2 b3 r3]
                  by (simp add: c0_def)
                then show ?thesis by blast
              qed
            qed
          qed
        qed
      qed
    qed
  qed
qed


lemma decode_scalar: "list_all scalar_value (utf8_decode_replace bs)"
proof (induction "length bs" arbitrary: bs rule: less_induct)
  case less
  show ?case
  proof (cases "bs = []")
    case True
    then show ?thesis by simp
  next
    case False
    from decode_step [OF False] obtain k c where k: "0 < k" "k \<le> length bs"
      and d: "utf8_decode_replace bs = c # utf8_decode_replace (drop k bs)"
      and c: "scalar_value c" by blast
    have "length (drop k bs) < length bs" using k False by simp
    then have "list_all scalar_value (utf8_decode_replace (drop k bs))" by (rule less)
    then show ?thesis unfolding d using c by simp
  qed
qed

lemma encode_decode:
  "REPLACEMENT \<notin> set (utf8_decode_replace bs) \<Longrightarrow>
     utf8_encode (utf8_decode_replace bs) = Inr bs"
proof (induction "length bs" arbitrary: bs rule: less_induct)
  case less
  show ?case
  proof (cases "bs = []")
    case True
    then show ?thesis by simp
  next
    case False
    from decode_step [OF False] obtain k c where k: "0 < k" "k \<le> length bs"
      and d: "utf8_decode_replace bs = c # utf8_decode_replace (drop k bs)"
      and c: "scalar_value c" and e: "c \<noteq> REPLACEMENT \<longrightarrow> encode_cp c = take k bs"
      by blast
    have nr: "c \<noteq> REPLACEMENT" "REPLACEMENT \<notin> set (utf8_decode_replace (drop k bs))"
      using less.prems unfolding d by auto
    have "length (drop k bs) < length bs" using k False by simp
    then have "utf8_encode (utf8_decode_replace (drop k bs)) = Inr (drop k bs)"
      using nr(2) by (rule less.hyps)
    moreover have "encode_cp c = take k bs" using e nr(1) by blast
    ultimately show ?thesis unfolding d using c by (simp add: scalar_value_def)
  qed
qed

lemma encode_decoded_total: "\<exists>enc. utf8_encode (utf8_decode_replace bs) = Inr enc"
  by (rule utf8_encode_total [OF decode_scalar])

text \<open>The last byte of an encoding is zero only for the code point zero.\<close>

lemma cont_byte_nonzero: "d < 64 \<Longrightarrow> cont_byte d \<noteq> 0"
  using cont_byte_props(3) [of d] by (auto simp del: of_nat_add)

lemma encode_cp_last:
  assumes "c \<noteq> 0" "c < 0x110000"
  shows "encode_cp c \<noteq> [] \<and> last (encode_cp c) \<noteq> 0"
proof -
  have "(of_nat c :: byte) \<noteq> 0" if "c < 0x80"
    using that assms(1) unat_of_nat_byte [of c] by auto
  moreover have "cont_byte (c mod 64) \<noteq> 0" by (rule cont_byte_nonzero) simp
  ultimately show ?thesis unfolding encode_cp_def by simp
qed

lemma utf8_encode_last:
  "utf8_encode s = Inr bs \<Longrightarrow> list_all (\<lambda>c. c < 0x110000) s \<Longrightarrow> s \<noteq> [] \<Longrightarrow> last s \<noteq> 0
     \<Longrightarrow> bs \<noteq> [] \<and> last bs \<noteq> 0"
proof (induction s arbitrary: bs)
  case Nil
  then show ?case by simp
next
  case (Cons c cs)
  from Cons.prems(1) obtain bs' where e: "utf8_encode cs = Inr bs'" and bs: "bs = encode_cp c @ bs'"
    unfolding utf8_encode_Cons_Inr by blast
  show ?case
  proof (cases "cs = []")
    case True
    then have "bs' = []" using e by simp
    moreover have "c \<noteq> 0" "c < 0x110000" using Cons.prems True by simp_all
    ultimately show ?thesis unfolding bs using encode_cp_last [of c] by simp
  next
    case False
    then have "bs' \<noteq> [] \<and> last bs' \<noteq> 0" using Cons.IH [OF e] Cons.prems by simp
    then show ?thesis unfolding bs by simp
  qed
qed

lemma rstrip_zero_padded:
  assumes "bs = [] \<or> last bs \<noteq> 0"
  shows "rstrip_zero (bs @ replicate n 0) = bs"
proof -
  have "dropWhile (\<lambda>b. b = 0) (replicate n (0::byte) @ rev bs) = dropWhile (\<lambda>b. b = 0) (rev bs)"
    by (induction n) simp_all
  moreover have "dropWhile (\<lambda>b. b = 0) (rev bs) = rev bs"
    using assms by (cases bs rule: rev_cases) auto
  ultimately show ?thesis by (simp add: rstrip_zero_def)
qed


lemma le_value_le_bytes: "v < 256 ^ n \<Longrightarrow> le_value (le_bytes n v) = v"
proof (induction n arbitrary: v)
  case 0 then show ?case by simp
next
  case (Suc n)
  then have "v div 256 < 256 ^ n" by (simp add: less_mult_imp_div_less mult.commute)
  with Suc.IH have "le_value (le_bytes n (v div 256)) = v div 256" by blast
  then show ?case by (simp add: unat_of_nat)
qed

lemma length_le_bytes: "length (le_bytes n v) = n"
  by (induction n arbitrary: v) auto

lemma le_value_bound: "le_value bs < 256 ^ length bs"
proof (induction bs)
  case Nil then show ?case by simp
next
  case (Cons b bs)
  with unat_byte_less [of b] show ?case by simp
qed

section \<open>Lemmas: the header codec\<close>

lemma HEADER_SIZE_eq: "HEADER_SIZE = 22"
  by (simp add: HEADER_SIZE_def VERSION_SIZE_def PADDING_SIZE_1_def UID_SIZE_def
      PADDING_SIZE_2_def CALLSIGN_SIZE_def)

lemma from_bytes_short: "length d < 22 \<Longrightarrow> from_bytes d = Inl ValueError"
  by (simp add: from_bytes_def HEADER_SIZE_eq)

lemma struct_unpack_take:
  "struct_unpack (take 22 d) = struct_unpack d"
  by (simp add: struct_unpack_def drop_take)


lemma from_bytes_Inr:
  "22 \<le> length d \<Longrightarrow>
   from_bytes d =
     Inr (init (PyInt (int (le_value (take 4 d)))) (PyInt (int (le_value (take 2 (drop 6 d)))))
            (PyStr (utf8_decode_replace (rstrip_zero (take 12 (drop 10 d)))))
            (PyInt (int (le_value (take 2 (drop 4 d))))) (PyInt (int (le_value (take 2 (drop 8 d))))))"
  unfolding from_bytes_def HEADER_SIZE_eq struct_unpack_take
  by (simp add: struct_unpack_def)

lemma uint_value_le_value: "length bs \<le> n \<Longrightarrow> uint_value n (PyInt (int (le_value bs)))"
proof -
  assume "length bs \<le> n"
  then have "(256::nat) ^ length bs \<le> 256 ^ n" by (intro power_increasing) simp_all
  with le_value_bound [of bs] have "le_value bs < 256 ^ n" by linarith
  then have "int (le_value bs) < int (256 ^ n)" by (rule iffD2 [OF of_nat_less_iff])
  then show ?thesis by (simp add: uint_value_def)
qed

lemma from_bytes_length: "from_bytes d = Inr h \<Longrightarrow> 22 \<le> length d"
  unfolding from_bytes_def HEADER_SIZE_eq by (cases "length d < 22") simp_all

lemma well_typed_init:
  "well_typed (init v u c p1 p2) \<longleftrightarrow>
     uint_value 4 v \<and> uint_value 2 u \<and> text_value c \<and> uint_value 2 p1 \<and> uint_value 2 p2"
  by (simp add: well_typed_def init_def)

lemma well_typed_from_bytes:
  assumes "from_bytes d = Inr h"
  shows "well_typed h"
proof -
  have l: "22 \<le> length d" using assms by (rule from_bytes_length)
  have "text_value (PyStr (utf8_decode_replace (rstrip_zero (take 12 (drop 10 d)))))"
    by (simp add: text_value_def decode_scalar)
  then show ?thesis
    using assms unfolding from_bytes_Inr [OF l]
    by (auto simp: well_typed_init intro!: uint_value_le_value)
qed


lemma pack_uint_ok:
  assumes "uint_value n v"
  shows "\<exists>bs. pack_uint n v = Inr bs \<and> length bs = n \<and> PyInt (int (le_value bs)) = v"
proof -
  from assms obtain i where v: "v = PyInt i" and i: "0 \<le> i" "i < 256 ^ n"
    by (cases v) (auto simp: uint_value_def)
  have "int (nat i) < int (256 ^ n)" using i by simp
  then have "nat i < 256 ^ n" by (rule iffD1 [OF of_nat_less_iff])
  then have "le_value (le_bytes n (nat i)) = nat i" by (rule le_value_le_bytes)
  then show ?thesis using i by (simp add: v pack_uint_def length_le_bytes)
qed

lemma callsign_field:
  "pack_12s (ljust 12 (slice_to 12 enc)) = take 12 enc @ replicate (12 - length enc) 0"
  by (simp add: pack_12s_def ljust_def slice_to_def min_def)

lemma to_bytes_ok:
  assumes "well_typed h"
  shows "\<exists>bv bp1 bu bp2 s enc.
           callsign h = PyStr s \<and> utf8_encode s = Inr enc
           \<and> to_bytes h = Inr (bv @ bp1 @ bu @ bp2 @ take 12 enc @ replicate (12 - length enc) 0)
           \<and> length bv = 4 \<and> length bp1 = 2 \<and> length bu = 2 \<and> length bp2 = 2
           \<and> PyInt (int (le_value bv)) = version h \<and> PyInt (int (le_value bp1)) = padding1 h
           \<and> PyInt (int (le_value bu)) = uid h \<and> PyInt (int (le_value bp2)) = padding2 h"
proof -
  from assms obtain s where s: "callsign h = PyStr s" and sv: "list_all scalar_value s"
    by (cases "callsign h") (auto simp: well_typed_def text_value_def)
  from utf8_encode_total [OF sv] obtain enc where enc: "utf8_encode s = Inr enc" by blast
  from assms have "uint_value 4 (version h)" by (simp add: well_typed_def)
  from pack_uint_ok [OF this] obtain bv where bv: "pack_uint 4 (version h) = Inr bv"
    "length bv = 4" "PyInt (int (le_value bv)) = version h" by blast
  from assms have "uint_value 2 (padding1 h)" by (simp add: well_typed_def)
  from pack_uint_ok [OF this] obtain bp1 where bp1: "pack_uint 2 (padding1 h) = Inr bp1"
    "length bp1 = 2" "PyInt (int (le_value bp1)) = padding1 h" by blast
  from assms have "uint_value 2 (uid h)" by (simp add: well_typed_def)
  from pack_uint_ok [OF this] obtain bu where bu: "pack_uint 2 (uid h) = Inr bu"
    "length bu = 2" "PyInt (int (le_value bu)) = uid h" by blast
  from assms have "uint_value 2 (padding2 h)" by (simp add: well_typed_def)
  from pack_uint_ok [OF this] obtain bp2 where bp2: "pack_uint 2 (padding2 h) = Inr bp2"
    "length bp2 = 2" "PyInt (int (le_value bp2)) = padding2 h" by blast
  have x: "extra h = []" using assms by (simp add: well_typed_def)
  have "to_bytes h = Inr (bv @ bp1 @ bu @ bp2 @ take 12 enc @ replicate (12 - length enc) 0)"
    unfolding to_bytes_def s
    by (simp add: enc self_CALLSIGN_SIZE_def x CALLSIGN_SIZE_def struct_pack_def
        bv(1) bp1(1) bu(1) bp2(1) callsign_field)
  then show ?thesis using s enc bv bp1 bu bp2 by blast
qed

lemma to_bytes_length:
  assumes "well_typed h"
  shows "\<exists>bs. to_bytes h = Inr bs \<and> length bs = 22"
proof -
  from to_bytes_ok [OF assms] obtain bv bp1 bu bp2 :: bytes and enc :: bytes where
    "to_bytes h = Inr (bv @ bp1 @ bu @ bp2 @ take 12 enc @ replicate (12 - length enc) 0)"
    "length bv = 4" "length bp1 = 2" "length bu = 2" "length bp2 = 2" by blast
  then show ?thesis by (simp add: min_def)
qed

lemma init_eta: "extra h = [] \<Longrightarrow> init (version h) (uid h) (callsign h) (padding1 h) (padding2 h) = h"
  by (cases h) (simp add: init_def)

lemma from_bytes_parts:
  assumes "length bv = 4" "length bp1 = 2" "length bu = 2" "length bp2 = 2" "length f = 12"
  shows "from_bytes (bv @ bp1 @ bu @ bp2 @ f @ rest) =
     Inr (init (PyInt (int (le_value bv))) (PyInt (int (le_value bu)))
            (PyStr (utf8_decode_replace (rstrip_zero f)))
            (PyInt (int (le_value bp1))) (PyInt (int (le_value bp2))))"
proof -
  have "22 \<le> length (bv @ bp1 @ bu @ bp2 @ f @ rest)" using assms by simp
  from from_bytes_Inr [OF this] show ?thesis using assms by simp
qed


lemma scalar_value_less: "list_all scalar_value s \<Longrightarrow> list_all (\<lambda>c. c < 0x110000) s"
  by (induction s) (auto simp: scalar_value_def)

lemma header_round_trip:
  assumes wt: "well_typed h"
    and cs: "callsign h = PyStr s" "utf8_encode s = Inr enc" "length enc \<le> 12"
    and nul: "s = [] \<or> last s \<noteq> 0"
  shows "\<exists>bs. to_bytes h = Inr bs \<and> length bs = 22 \<and> from_bytes bs = Inr h"
proof -
  from to_bytes_ok [OF wt] cs(1,2) obtain bv bp1 bu bp2 where
    tb: "to_bytes h = Inr (bv @ bp1 @ bu @ bp2 @ take 12 enc @ replicate (12 - length enc) 0)"
    and len: "length bv = 4" "length bp1 = 2" "length bu = 2" "length bp2 = 2"
    and val: "PyInt (int (le_value bv)) = version h" "PyInt (int (le_value bp1)) = padding1 h"
      "PyInt (int (le_value bu)) = uid h" "PyInt (int (le_value bp2)) = padding2 h"
    by auto
  define f where "f = enc @ replicate (12 - length enc) 0"
  have f: "take 12 enc @ replicate (12 - length enc) 0 = f" "length f = 12"
    using cs(3) by (simp_all add: f_def)
  have sv: "list_all (\<lambda>c. c < 0x110000) s"
    using wt cs(1) by (simp add: well_typed_def text_value_def scalar_value_less)
  have "enc = [] \<or> last enc \<noteq> 0"
  proof (cases "s = []")
    case True
    then show ?thesis using cs(2) by simp
  next
    case False
    then show ?thesis using utf8_encode_last [OF cs(2) sv] nul by blast
  qed
  then have "rstrip_zero f = enc" unfolding f_def by (rule rstrip_zero_padded)
  moreover have "utf8_decode_replace enc = s" by (rule utf8_decode_encode [OF cs(2) sv])
  ultimately have d: "PyStr (utf8_decode_replace (rstrip_zero f)) = callsign h"
    by (simp add: cs(1))
  have "from_bytes (bv @ bp1 @ bu @ bp2 @ f @ []) = Inr h"
    unfolding from_bytes_parts [OF len f(2)] val d
    using wt by (simp add: init_eta well_typed_def)
  then show ?thesis unfolding tb f using len f(2) by simp
qed

text \<open>Updates of the five fields keep a header well typed.\<close>

lemma apply_updates_ok:
  "well_typed h \<Longrightarrow> list_all field_update updates \<Longrightarrow>
     \<exists>h'. apply_updates h updates = Inr h' \<and> well_typed h'"
proof (induction updates arbitrary: h)
  case Nil
  then show ?case by simp
next
  case (Cons kv rest)
  obtain key v where kv: "kv = (key, v)" by (cases kv)
  from Cons.prems(2) have fu: "field_update (key, v)" and r: "list_all field_update rest"
    by (simp_all add: kv)
  have "\<exists>h1. hasattr h key \<and> setattr h key v = Inr h1 \<and> well_typed h1"
    using fu Cons.prems(1)
    by (auto simp: field_update_def hasattr_def instance_attrs_def setattr_def well_typed_def
        split: if_splits)
  then obtain h1 where h1: "hasattr h key" "setattr h key v = Inr h1" "well_typed h1" by blast
  from Cons.IH [OF h1(3) r] show ?case by (simp add: kv h1)
qed

lemma call_to_bytes_well_typed: "well_typed h \<Longrightarrow> call_to_bytes h = to_bytes h"
  by (simp add: call_to_bytes_def well_typed_def)

lemma replace_header_payload:
  assumes "22 \<le> length packet" "list_all field_update updates"
  shows "\<exists>r. replace_header_in_stream packet updates = Inr r
           \<and> drop 22 r = drop 22 packet \<and> length r = length packet"
proof -
  obtain h where h: "from_bytes packet = Inr h" using from_bytes_Inr [OF assms(1)] by blast
  from apply_updates_ok [OF well_typed_from_bytes [OF h] assms(2)]
  obtain h' where h': "apply_updates h updates = Inr h'" "well_typed h'" by blast
  from to_bytes_length [OF h'(2)] obtain bs where bs: "to_bytes h' = Inr bs" "length bs = 22"
    by blast
  have "replace_header_in_stream packet updates = Inr (bs @ drop 22 packet)"
    by (simp add: replace_header_in_stream_def h h' call_to_bytes_well_typed bs HEADER_SIZE_eq)
  then show ?thesis using bs(2) assms(1) by simp
qed


text \<open>Whatever the attributes hold, a header that serialises at all serialises to 22 bytes.\<close>

lemma pack_uint_length: "pack_uint n v = Inr bs \<Longrightarrow> length bs = n"
  by (cases v) (auto simp: pack_uint_def length_le_bytes split: if_splits)

lemma pack_12s_length: "length (pack_12s bs) = 12"
  by (simp add: pack_12s_def min_def)

lemma struct_pack_length: "struct_pack a b c d s = Inr bs \<Longrightarrow> length bs = 22"
  by (auto simp: struct_pack_def pack_12s_length split: sum.splits dest!: pack_uint_length)

lemma to_bytes_length_any: "to_bytes h = Inr bs \<Longrightarrow> length bs = 22"
  by (auto simp: to_bytes_def Let_def split: pyval.splits sum.splits dest: struct_pack_length)

lemma replace_header_result:
  assumes "replace_header_in_stream packet updates = Inr r"
  shows "drop 22 r = drop 22 packet \<and> length r = length packet"
proof -
  from assms obtain h h' bs where h: "from_bytes packet = Inr h"
    and "apply_updates h updates = Inr h'" and bs: "call_to_bytes h' = Inr bs"
    and r: "r = bs @ drop 22 packet"
    by (auto simp: replace_header_in_stream_def HEADER_SIZE_eq split: sum.splits)
  from bs have "to_bytes h' = Inr bs" by (auto simp: call_to_bytes_def split: option.splits)
  then have "length bs = 22" by (rule to_bytes_length_any)
  then show ?thesis using from_bytes_length [OF h] by (simp add: r)
qed

section \<open>Lemmas: the echo service\<close>

lemma on_message_reserved_uid:
  assumes "from_bytes payload = Inr h" "uid h = PyInt (echo_uid cfg)"
  shows "on_message_try cfg now payload s = Inr s" and "on_message cfg now payload s = Inr s"
  using assms by (simp_all add: on_message_def on_message_try_def)

lemma on_message_short:
  assumes "length payload < 22"
  shows "on_message_try cfg now payload s = Inl ValueError" and "on_message cfg now payload s = Inr s"
  using from_bytes_short [OF assms] by (simp_all add: on_message_def on_message_try_def)

lemma on_message_accept:
  assumes "from_bytes payload = Inr h" "uid h \<noteq> PyInt (echo_uid cfg)"
  shows "on_message cfg now payload s =
           Inr (s\<lparr>message_buffer := message_buffer s @ [payload], last_message_time := Some now\<rparr>)"
  using assms by (simp add: on_message_def on_message_try_def)

lemma check_timeout_idle: "check_timeout publish cfg now idle net = (idle, net, None)"
  by (simp add: check_timeout_def idle_def)

lemma check_timeout_no_timestamp:
  "last_message_time s = None \<Longrightarrow> check_timeout publish cfg now s net = (s, net, None)"
  by (simp add: check_timeout_def)

lemma check_timeout_quiet:
  "last_message_time s = Some t \<Longrightarrow> now - t \<le> echo_timeout cfg \<Longrightarrow>
     check_timeout publish cfg now s net = (s, net, None)"
  by (simp add: check_timeout_def)

lemma clear_idle: "(s :: FMOEchoService)\<lparr>message_buffer := [], last_message_time := None\<rparr> = idle"
  by (cases s) (simp add: idle_def)

lemma check_timeout_fires:
  assumes "last_message_time s = Some t" "echo_timeout cfg < now - t"
  shows "\<exists>net' report. check_timeout publish cfg now s net = (idle, net', report)"
    and "message_buffer s = [] \<Longrightarrow> check_timeout publish cfg now s net = (idle, net, None)"
    and "message_buffer s \<noteq> [] \<Longrightarrow>
           check_timeout publish cfg now s net =
             (idle, snd (replay_messages publish cfg s net), Some (fst (replay_messages publish cfg s net)))"
  using assms by (auto simp: check_timeout_def clear_idle split: prod.splits)

lemma replay_loop_counts:
  "replay_loop publish cfg buffer sc fc net = (sc', fc', net') \<Longrightarrow>
     sc' + fc' = sc + fc + length buffer"
proof (induction buffer arbitrary: sc fc net)
  case Nil
  then show ?case by simp
next
  case (Cons m ms)
  obtain ok net1 where one: "replay_one publish cfg m net = (ok, net1)"
    by (cases "replay_one publish cfg m net")
  show ?case
  proof (cases ok)
    case True
    with Cons.prems one have "replay_loop publish cfg ms (sc + 1) fc net1 = (sc', fc', net')" by simp
    from Cons.IH [OF this] show ?thesis by simp
  next
    case False
    with Cons.prems one have "replay_loop publish cfg ms sc (fc + 1) net1 = (sc', fc', net')" by simp
    from Cons.IH [OF this] show ?thesis by simp
  qed
qed

lemma replay_messages_counts:
  "\<exists>sc fc net'. replay_messages publish cfg s net = ((sc, fc, length (message_buffer s)), net')
      \<and> sc + fc = length (message_buffer s)"
proof -
  obtain sc fc net' where l: "replay_loop publish cfg (message_buffer s) 0 0 net = (sc, fc, net')"
    by (cases "replay_loop publish cfg (message_buffer s) 0 0 net") auto
  from replay_loop_counts [OF l] show ?thesis by (simp add: replay_messages_def l)
qed

lemma replay_one_mock:
  "snd (replay_one (mock_publish outcome) cfg m published) = published @ attempts cfg [m]"
  by (simp add: replay_one_def attempts_def mock_publish_def List.map_filter_simps
      split: sum.splits publish_result.splits)

lemma attempts_Cons: "attempts cfg (m # ms) = attempts cfg [m] @ attempts cfg ms"
  by (simp add: attempts_def List.map_filter_simps split: sum.splits)

lemma replay_loop_mock:
  "snd (snd (replay_loop (mock_publish outcome) cfg buffer sc fc published)) =
     published @ attempts cfg buffer"
proof (induction buffer arbitrary: sc fc published)
  case Nil
  then show ?case by (simp add: attempts_def List.map_filter_simps)
next
  case (Cons m ms)
  obtain ok net1 where one: "replay_one (mock_publish outcome) cfg m published = (ok, net1)"
    by (cases "replay_one (mock_publish outcome) cfg m published")
  have n: "net1 = published @ attempts cfg [m]" using replay_one_mock [of outcome cfg m published] one by simp
  show ?case
    by (cases ok) (simp_all add: one Cons.IH n attempts_Cons [of cfg m ms])
qed

lemma replay_messages_mock:
  "snd (replay_messages (mock_publish outcome) cfg s published) =
     published @ attempts cfg (message_buffer s)"
proof -
  obtain sc fc net' where
    l: "replay_loop (mock_publish outcome) cfg (message_buffer s) 0 0 published = (sc, fc, net')"
    by (cases "replay_loop (mock_publish outcome) cfg (message_buffer s) 0 0 published") auto
  from replay_loop_mock [of outcome cfg "message_buffer s" 0 0 published]
  show ?thesis by (simp add: replay_messages_def l)
qed


lemma modify_msg_ok:
  assumes "valid_config cfg" "22 \<le> length m"
  shows "\<exists>r. modify_msg cfg m = Inr r \<and> drop 22 r = drop 22 m \<and> length r = length m"
proof -
  obtain h where h: "from_bytes m = Inr h" using from_bytes_Inr [OF assms(2)] by blast
  from well_typed_from_bytes [OF h] obtain s where s: "callsign h = PyStr s" "list_all scalar_value s"
    by (cases "callsign h") (auto simp: well_typed_def text_value_def)
  have "list_all field_update
          [(''uid'', PyInt (echo_uid cfg)), (''callsign'', PyStr (echo_callsign_prefix cfg @ s))]"
    using assms(1) s(2) by (simp add: field_update_def uint_value_def text_value_def valid_config_def)
  from replace_header_payload [OF assms(2) this] show ?thesis
    by (simp add: modify_msg_def h s(1))
qed

lemma attempts_all:
  assumes "valid_config cfg"
  shows "list_all (\<lambda>m. 22 \<le> length m) buffer \<Longrightarrow> length (attempts cfg buffer) = length buffer"
proof (induction buffer)
  case Nil
  then show ?case by (simp add: attempts_def List.map_filter_simps)
next
  case (Cons m ms)
  then have "22 \<le> length m" by simp
  from modify_msg_ok [OF assms this] obtain r where "modify_msg cfg m = Inr r" by blast
  then have "attempts cfg [m] = [(topics_publish cfg, r)]"
    by (simp add: attempts_def List.map_filter_simps)
  then show ?case using Cons by (simp add: attempts_Cons [of cfg m ms])
qed

lemma replay_one_mock_result:
  assumes "modify_msg cfg m = Inr r"
  shows "replay_one (mock_publish outcome) cfg m published =
           (outcome (length published) = Rc MQTT_ERR_SUCCESS, published @ [(topics_publish cfg, r)])"
  using assms
  by (cases "outcome (length published)")
     (auto simp add: replay_one_def mock_publish_def)

lemma replay_three:
  assumes "valid_config cfg" "22 \<le> length m1" "22 \<le> length m2" "22 \<le> length m3"
    and "outcome (length published) = Rc MQTT_ERR_SUCCESS"
    and "outcome (length published + 1) \<noteq> Rc MQTT_ERR_SUCCESS"
    and "outcome (length published + 2) = Rc MQTT_ERR_SUCCESS"
  shows "fst (replay_messages (mock_publish outcome) cfg
            \<lparr>message_buffer = [m1, m2, m3], last_message_time = t\<rparr> published) = (2, 1, 3)"
proof -
  from modify_msg_ok [OF assms(1,2)] obtain r1 where r1: "modify_msg cfg m1 = Inr r1" by blast
  from modify_msg_ok [OF assms(1,3)] obtain r2 where r2: "modify_msg cfg m2 = Inr r2" by blast
  from modify_msg_ok [OF assms(1,4)] obtain r3 where r3: "modify_msg cfg m3 = Inr r3" by blast
  show ?thesis
    using assms(5,6,7)
    by (simp add: replay_messages_def replay_one_mock_result [OF r1]
        replay_one_mock_result [OF r2] replay_one_mock_result [OF r3] numeral_2_eq_2)
qed


lemma attempts_rewrites:
  assumes "valid_config cfg"
  shows "list_all (\<lambda>m. 22 \<le> length m) buffer \<Longrightarrow>
    map (\<lambda>a. Inr (snd a)) (attempts cfg buffer) = map (modify_msg cfg) buffer"
proof (induction buffer)
  case Nil
  then show ?case by (simp add: attempts_def List.map_filter_simps)
next
  case (Cons m ms)
  then have "22 \<le> length m" by simp
  from modify_msg_ok [OF assms this] obtain r where r: "modify_msg cfg m = Inr r" by blast
  then have "attempts cfg [m] = [(topics_publish cfg, r)]"
    by (simp add: attempts_def List.map_filter_simps)
  then show ?case using Cons r by (simp add: attempts_Cons [of cfg m ms])
qed

section \<open>Lemmas: evaluation on concrete inputs\<close>

lemma le_bytes_4:
  "le_bytes 4 v = [of_nat (v mod 256), of_nat (v div 256 mod 256),
                   of_nat (v div 256 div 256 mod 256), of_nat (v div 256 div 256 div 256 mod 256)]"
proof -
  have "(4::nat) = Suc (Suc (Suc (Suc 0)))" by simp
  then show ?thesis by (simp only: le_bytes.simps)
qed

lemma le_bytes_2: "le_bytes 2 v = [of_nat (v mod 256), of_nat (v div 256 mod 256)]"
proof -
  have "(2::nat) = Suc (Suc 0)" by simp
  then show ?thesis by (simp only: le_bytes.simps)
qed

lemmas eval_to_bytes =
  to_bytes_def init_def self_CALLSIGN_SIZE_def CALLSIGN_SIZE_def encode_cp_def cont_byte_def
  is_surrogate_def slice_to_def ljust_def struct_pack_def pack_uint_def pack_12s_def
  le_bytes_4 le_bytes_2

lemmas eval_from_bytes =
  from_bytes_def HEADER_SIZE_eq struct_unpack_def init_def rstrip_zero_def
  utf8_decode_replace.simps(2) Let_def valid_second_def is_cont_def cont_bits_def REPLACEMENT_def

lemma eval_split_encode:
  "utf8_encode split_callsign =
     Inr [0x41, 0x41, 0x41, 0x41, 0x41, 0x41, 0x41, 0x41, 0x41, 0x41, 0x41, 0xC3, 0xA9]"
  by (simp add: split_callsign_def encode_cp_def cont_byte_def is_surrogate_def)

lemma eval_split_to_bytes:
  "to_bytes (init (PyInt 1) (PyInt 100) (PyStr split_callsign) (PyInt 0) (PyInt 0)) =
     Inr [1, 0, 0, 0, 0, 0, 100, 0, 0, 0,
          0x41, 0x41, 0x41, 0x41, 0x41, 0x41, 0x41, 0x41, 0x41, 0x41, 0x41, 0xC3]"
  by (simp add: eval_to_bytes split_callsign_def)

lemma eval_split_from_bytes:
  "from_bytes [1, 0, 0, 0, 0, 0, 100, 0, 0, 0,
          0x41, 0x41, 0x41, 0x41, 0x41, 0x41, 0x41, 0x41, 0x41, 0x41, 0x41, 0xC3] =
     Inr (init (PyInt 1) (PyInt 100)
            (PyStr [0x41, 0x41, 0x41, 0x41, 0x41, 0x41, 0x41, 0x41, 0x41, 0x41, 0x41, 0xFFFD])
            (PyInt 0) (PyInt 0))"
  by (simp add: eval_from_bytes)

lemma eval_split_reencode:
  "utf8_encode [0x41, 0x41, 0x41, 0x41, 0x41, 0x41, 0x41, 0x41, 0x41, 0x41, 0x41, 0xFFFD] =
     Inr [0x41, 0x41, 0x41, 0x41, 0x41, 0x41, 0x41, 0x41, 0x41, 0x41, 0x41, 0xEF, 0xBF, 0xBD]"
  by (simp add: encode_cp_def cont_byte_def is_surrogate_def)

lemma rstrip_zero_spec:
  "\<exists>k. bs = rstrip_zero bs @ replicate k 0"
  "rstrip_zero bs = [] \<or> last (rstrip_zero bs) \<noteq> 0"
proof -
  let ?P = "\<lambda>b::byte. b = 0"
  have "rev (rev bs) = rev (takeWhile ?P (rev bs) @ dropWhile ?P (rev bs))"
    by (simp only: takeWhile_dropWhile_id)
  then have eq: "bs = rstrip_zero bs @ rev (takeWhile ?P (rev bs))"
    by (simp only: rev_rev_ident rev_append rstrip_zero_def)
  have "\<forall>x \<in> set (takeWhile ?P (rev bs)). x = 0" by (auto dest: set_takeWhileD)
  then have "replicate (length (takeWhile ?P (rev bs))) 0 = takeWhile ?P (rev bs)"
    by (rule replicate_length_same)
  then have "rev (takeWhile ?P (rev bs)) = replicate (length (takeWhile ?P (rev bs))) 0"
    by (metis rev_replicate)
  with eq show "\<exists>k. bs = rstrip_zero bs @ replicate k 0" by metis
  show "rstrip_zero bs = [] \<or> last (rstrip_zero bs) \<noteq> 0"
  proof (cases "dropWhile ?P (rev bs)")
    case Nil
    then show ?thesis by (simp add: rstrip_zero_def)
  next
    case (Cons x xs)
    then have "\<not> ?P x" using hd_dropWhile [of ?P "rev bs"] by auto
    then show ?thesis using Cons by (simp add: rstrip_zero_def)
  qed
qed

lemma from_bytes_ValueError_iff: "from_bytes d = Inl ValueError \<longleftrightarrow> length d < 22"
proof
  assume "from_bytes d = Inl ValueError"
  then show "length d < 22" using from_bytes_Inr [of d] by (cases "22 \<le> length d") auto
next
  assume "length d < 22"
  then show "from_bytes d = Inl ValueError" by (rule from_bytes_short)
qed

lemma decode_replaced_or_valid:
  "REPLACEMENT \<in> set (utf8_decode_replace bs) \<or> utf8_encode (utf8_decode_replace bs) = Inr bs"
  using encode_decode [of bs] by blast

lemma from_bytes_callsign:
  assumes "22 \<le> length d"
  shows "\<exists>h. from_bytes d = Inr h
           \<and> callsign h = PyStr (utf8_decode_replace (rstrip_zero (take 12 (drop 10 d))))
           \<and> text_value (callsign h)"
  unfolding from_bytes_Inr [OF assms]
  by (simp add: init_def text_value_def decode_scalar)

lemma replicate_numeral_Cons: "replicate (numeral k) x = x # replicate (pred_numeral k) x"
  by (simp add: numeral_eq_Suc)

lemma eval_example_from_bytes:
  "from_bytes example_packet =
     Inr (init (PyInt 1) (PyInt 441) (PyStr (ascii ''BD8BOJ'')) (PyInt 0) (PyInt 0))"
  by (simp add: example_packet_def eval_from_bytes ascii_def)

lemma eval_replayed_from_bytes:
  "from_bytes example_replayed =
     Inr (init (PyInt 1) (PyInt 65535) (PyStr (ascii ''RE>BD8BOJ'')) (PyInt 0) (PyInt 0))"
  by (simp add: example_replayed_def eval_from_bytes ascii_def)

lemmas eval_replace =
  replace_header_in_stream_def hasattr_def instance_attrs_def class_attrs_def setattr_def
  call_to_bytes_def eval_to_bytes HEADER_SIZE_eq

lemma eval_modify:
  assumes "echo_uid cfg = 65535" "echo_callsign_prefix cfg = ascii ''RE>''"
  shows "modify_msg cfg example_packet = Inr example_replayed"
  unfolding modify_msg_def eval_example_from_bytes
  by (simp add: assms eval_replace eval_example_from_bytes)
     (simp add: init_def ascii_def eval_to_bytes example_packet_def example_replayed_def
        HEADER_SIZE_eq replicate_numeral_Cons)

section \<open>The claims\<close>

text \<open>
  C1.  The specification says that \<^verbatim>\<open>encode\<close> truncates the UTF-8 callsign at a code-point
  boundary, so that encoding a long callsign and decoding it again gives a prefix of the
  original of at most 12 bytes.  \<^verbatim>\<open>to_bytes\<close> cuts after the twelfth byte wherever it
  falls.  For eleven letters \<^verbatim>\<open>A\<close> followed by U+00E9 the field ends in the lone lead byte
  \<^verbatim>\<open>C3\<close>; decoding yields eleven \<^verbatim>\<open>A\<close> and U+FFFD, which is not a prefix of the original
  and encodes to 14 bytes.
\<close>

theorem C1_truncation_splits_code_point:
  "utf8_encode split_callsign =
     Inr [0x41, 0x41, 0x41, 0x41, 0x41, 0x41, 0x41, 0x41, 0x41, 0x41, 0x41, 0xC3, 0xA9]
   \<and> to_bytes (init (PyInt 1) (PyInt 100) (PyStr split_callsign) (PyInt 0) (PyInt 0)) =
     Inr [1, 0, 0, 0, 0, 0, 100, 0, 0, 0,
          0x41, 0x41, 0x41, 0x41, 0x41, 0x41, 0x41, 0x41, 0x41, 0x41, 0x41, 0xC3]
   \<and> from_bytes [1, 0, 0, 0, 0, 0, 100, 0, 0, 0,
          0x41, 0x41, 0x41, 0x41, 0x41, 0x41, 0x41, 0x41, 0x41, 0x41, 0x41, 0xC3] =
     Inr (init (PyInt 1) (PyInt 100)
            (PyStr [0x41, 0x41, 0x41, 0x41, 0x41, 0x41, 0x41, 0x41, 0x41, 0x41, 0x41, 0xFFFD])
            (PyInt 0) (PyInt 0))
   \<and> utf8_encode [0x41, 0x41, 0x41, 0x41, 0x41, 0x41, 0x41, 0x41, 0x41, 0x41, 0x41, 0xFFFD] =
     Inr [0x41, 0x41, 0x41, 0x41, 0x41, 0x41, 0x41, 0x41, 0x41, 0x41, 0x41, 0xEF, 0xBF, 0xBD]"
  by (intro conjI eval_split_encode eval_split_to_bytes eval_split_from_bytes eval_split_reencode)

text \<open>
  C2.  The specification says that \<^verbatim>\<open>decode(encode(h)) == h\<close> for every header whose callsign
  encodes to at most 12 bytes.  The callsign \<^verbatim>\<open>A\<close> followed by U+0000 encodes to two bytes,
  and decoding strips the zero byte together with the padding.
\<close>

theorem C2_trailing_nul_counterexample:
  "utf8_encode nul_callsign = Inr [0x41, 0]
   \<and> to_bytes (init (PyInt 1) (PyInt 100) (PyStr nul_callsign) (PyInt 0) (PyInt 0)) =
       Inr [1, 0, 0, 0, 0, 0, 100, 0, 0, 0, 0x41, 0, 0, 0, 0, 0, 0, 0, 0, 0, 0, 0]
   \<and> from_bytes [1, 0, 0, 0, 0, 0, 100, 0, 0, 0, 0x41, 0, 0, 0, 0, 0, 0, 0, 0, 0, 0, 0] =
       Inr (init (PyInt 1) (PyInt 100) (PyStr [0x41]) (PyInt 0) (PyInt 0))
   \<and> init (PyInt 1) (PyInt 100) (PyStr [0x41]) (PyInt 0) (PyInt 0)
       \<noteq> init (PyInt 1) (PyInt 100) (PyStr nul_callsign) (PyInt 0) (PyInt 0)"
proof (intro conjI)
  show "utf8_encode nul_callsign = Inr [0x41, 0]"
    by (simp add: nul_callsign_def encode_cp_def is_surrogate_def)
  show "to_bytes (init (PyInt 1) (PyInt 100) (PyStr nul_callsign) (PyInt 0) (PyInt 0)) =
       Inr [1, 0, 0, 0, 0, 0, 100, 0, 0, 0, 0x41, 0, 0, 0, 0, 0, 0, 0, 0, 0, 0, 0]"
    by (simp add: eval_to_bytes nul_callsign_def replicate_numeral_Cons)
  show "from_bytes [1, 0, 0, 0, 0, 0, 100, 0, 0, 0, 0x41, 0, 0, 0, 0, 0, 0, 0, 0, 0, 0, 0] =
       Inr (init (PyInt 1) (PyInt 100) (PyStr [0x41]) (PyInt 0) (PyInt 0))"
    by (simp add: eval_from_bytes)
  show "init (PyInt 1) (PyInt 100) (PyStr [0x41]) (PyInt 0) (PyInt 0)
       \<noteq> init (PyInt 1) (PyInt 100) (PyStr nul_callsign) (PyInt 0) (PyInt 0)"
    by (simp add: init_def nul_callsign_def)
qed

text \<open>
  C2, for callsigns that do not end in U+0000.  For every header whose fields have the types
  of the packet format, whose callsign encodes to at most 12 bytes of UTF-8 and does not end
  in the character U+0000, \<^verbatim>\<open>to_bytes\<close> succeeds with 22 bytes and \<^verbatim>\<open>from_bytes\<close> gives the
  header back, equal in all five fields.
\<close>

theorem C2_round_trip:
  assumes "well_typed h"
    and "callsign h = PyStr s" "utf8_encode s = Inr enc" "length enc \<le> 12"
    and "s = [] \<or> last s \<noteq> 0"
  shows "\<exists>bs. to_bytes h = Inr bs \<and> length bs = 22 \<and> from_bytes bs = Inr h"
  using assms by (rule header_round_trip)

theorem C2_round_trip_witness:
  "to_bytes (init (PyInt 3) (PyInt 12345) (PyStr (ascii ''ECHO'')) (PyInt 0) (PyInt 0)) =
     Inr [3, 0, 0, 0, 0, 0, 0x39, 0x30, 0, 0, 0x45, 0x43, 0x48, 0x4F, 0, 0, 0, 0, 0, 0, 0, 0]
   \<and> from_bytes [3, 0, 0, 0, 0, 0, 0x39, 0x30, 0, 0, 0x45, 0x43, 0x48, 0x4F, 0, 0, 0, 0, 0, 0, 0, 0] =
     Inr (init (PyInt 3) (PyInt 12345) (PyStr (ascii ''ECHO'')) (PyInt 0) (PyInt 0))"
proof -
  let ?h = "init (PyInt 3) (PyInt 12345) (PyStr (ascii ''ECHO'')) (PyInt 0) (PyInt 0)"
  have wt: "well_typed ?h"
    by (simp add: well_typed_init uint_value_def text_value_def ascii_def scalar_value_def
        is_surrogate_def)
  have cs: "callsign ?h = PyStr (ascii ''ECHO'')" by (simp add: init_def)
  have enc: "utf8_encode (ascii ''ECHO'') = Inr [0x45, 0x43, 0x48, 0x4F]"
    by (simp add: ascii_def encode_cp_def is_surrogate_def)
  have len: "length [0x45, 0x43, 0x48, 0x4F :: byte] \<le> 12" by simp
  have nul: "ascii ''ECHO'' = [] \<or> last (ascii ''ECHO'') \<noteq> 0" by (simp add: ascii_def)
  from C2_round_trip [OF wt cs enc len nul] obtain bs where
    bs: "to_bytes ?h = Inr bs" "from_bytes bs = Inr ?h" by blast
  have "to_bytes ?h =
      Inr [3, 0, 0, 0, 0, 0, 0x39, 0x30, 0, 0, 0x45, 0x43, 0x48, 0x4F, 0, 0, 0, 0, 0, 0, 0, 0]"
    by (simp add: eval_to_bytes ascii_def replicate_numeral_Cons)
  with bs show ?thesis by simp
qed

text \<open>
  C3.  Whatever the updates are, a packet that \<^verbatim>\<open>replace_header_in_stream\<close> returns has the
  input's bytes from offset 22 on and the input's length.  For every packet of at least 22
  bytes and every set of updates of the five header fields (each value of its field's type)
  it does return a packet.
\<close>

theorem C3_payload_preserved:
  "(replace_header_in_stream packet updates = Inr r \<longrightarrow>
      drop 22 r = drop 22 packet \<and> length r = length packet)
   \<and> (22 \<le> length packet \<and> list_all field_update updates \<longrightarrow>
        (\<exists>r'. replace_header_in_stream packet updates = Inr r'
           \<and> drop 22 r' = drop 22 packet \<and> length r' = length packet))"
  using replace_header_result [of packet updates r] replace_header_payload [of packet updates]
  by blast

theorem C3_payload_preserved_witness:
  "replace_header_in_stream example_packet
       [(''uid'', PyInt 65535), (''callsign'', PyStr (ascii ''RE>BD8BOJ''))] = Inr example_replayed
   \<and> drop 22 example_replayed = drop 22 example_packet
   \<and> length example_replayed = length example_packet"
proof -
  let ?u = "[(''uid'', PyInt 65535), (''callsign'', PyStr (ascii ''RE>BD8BOJ''))]"
  have a: "22 \<le> length example_packet" by (simp add: example_packet_def)
  have b: "list_all field_update ?u"
    by (simp add: field_update_def uint_value_def text_value_def ascii_def scalar_value_def
        is_surrogate_def)
  from C3_payload_preserved [where packet = example_packet and updates = ?u] a b obtain r where
    r: "replace_header_in_stream example_packet ?u = Inr r" "drop 22 r = drop 22 example_packet"
      "length r = length example_packet" by blast
  have "modify_msg DEFAULT_CONFIG example_packet = Inr example_replayed"
    by (rule eval_modify) (simp_all add: DEFAULT_CONFIG_def)
  then have "replace_header_in_stream example_packet ?u = Inr example_replayed"
    by (simp add: modify_msg_def eval_example_from_bytes DEFAULT_CONFIG_def init_def ascii_def)
  with r show ?thesis by simp
qed

text \<open>
  C4.  The specification says that \<^verbatim>\<open>rewriteHeader\<close> fails with \<^verbatim>\<open>UnknownFieldError\<close> exactly
  when an update key is not one of the five fields, and the docstring of
  \<^verbatim>\<open>replace_header_in_stream\<close> lists those five names as the supported ones.  The check is
  \<^verbatim>\<open>hasattr\<close>, which also holds for the class constants and the methods: the key
  \<^verbatim>\<open>HEADER_SIZE\<close> is accepted and the packet comes back, while a name that is no attribute
  at all raises \<^verbatim>\<open>AttributeError\<close>.
\<close>

theorem C4_class_attribute_accepted:
  "''HEADER_SIZE'' \<notin> set instance_attrs
   \<and> replace_header_in_stream example_packet [(''HEADER_SIZE'', PyInt 5)] = Inr example_packet
   \<and> replace_header_in_stream example_packet [(''nosuch'', PyInt 5)] = Inl AttributeError"
proof (intro conjI)
  show "''HEADER_SIZE'' \<notin> set instance_attrs" by (simp add: instance_attrs_def)
  show "replace_header_in_stream example_packet [(''HEADER_SIZE'', PyInt 5)] = Inr example_packet"
    unfolding replace_header_in_stream_def eval_example_from_bytes
    by (simp add: eval_replace ascii_def example_packet_def replicate_numeral_Cons)
  show "replace_header_in_stream example_packet [(''nosuch'', PyInt 5)] = Inl AttributeError"
    unfolding replace_header_in_stream_def eval_example_from_bytes
    by (simp add: hasattr_def instance_attrs_def class_attrs_def object_attrs_def init_def)
qed

text \<open>
  C5.  A packet whose decoded uid equals the configured relay uid is dropped by
  \<^verbatim>\<open>_on_message\<close>: the handler returns normally and the buffer and the timestamp are what
  they were.
\<close>

theorem C5_reserved_uid_dropped:
  assumes "from_bytes payload = Inr h" "uid h = PyInt (echo_uid cfg)"
  shows "on_message cfg now payload s = Inr s"
  using assms by (rule on_message_reserved_uid(2))

theorem C5_reserved_uid_dropped_witness:
  "on_message DEFAULT_CONFIG 7 example_replayed
     \<lparr>message_buffer = [example_packet], last_message_time = Some 1\<rparr> =
   Inr \<lparr>message_buffer = [example_packet], last_message_time = Some 1\<rparr>"
proof -
  have "uid (init (PyInt 1) (PyInt 65535) (PyStr (ascii ''RE>BD8BOJ'')) (PyInt 0) (PyInt 0)) =
          PyInt (echo_uid DEFAULT_CONFIG)"
    by (simp add: init_def DEFAULT_CONFIG_def)
  from C5_reserved_uid_dropped [OF eval_replayed_from_bytes this] show ?thesis .
qed

text \<open>
  C6.  When \<^verbatim>\<open>_check_timeout\<close> runs with a timestamp more than the timeout in the past, it
  leaves the service idle (empty buffer, no timestamp), also when the buffer was already
  empty (then nothing is published); every later call, at any time, finds the service idle
  and changes nothing.  Without a timestamp, or with an elapsed time of at most the timeout,
  nothing changes.
\<close>

theorem C6_check_timeout:
  "(last_message_time s = Some t \<and> echo_timeout cfg < now - t \<longrightarrow>
      (\<exists>net' report. check_timeout publish cfg now s net = (idle, net', report)
         \<and> (\<forall>now' net''. check_timeout publish cfg now' idle net'' = (idle, net'', None)))
      \<and> (message_buffer s = [] \<longrightarrow> check_timeout publish cfg now s net = (idle, net, None)))
   \<and> (last_message_time s = None \<longrightarrow> check_timeout publish cfg now s net = (s, net, None))
   \<and> (last_message_time s = Some t \<and> now - t \<le> echo_timeout cfg \<longrightarrow>
        check_timeout publish cfg now s net = (s, net, None))"
  using check_timeout_fires(1,2) [of s t cfg now publish net] check_timeout_idle [of publish cfg]
    check_timeout_no_timestamp [of s publish cfg now net]
    check_timeout_quiet [of s t now cfg publish net]
  by blast

theorem C6_check_timeout_witness:
  "check_timeout (mock_publish (\<lambda>i. Rc 0)) DEFAULT_CONFIG 6
      \<lparr>message_buffer = [], last_message_time = Some 0\<rparr> [] = (idle, [], None)
   \<and> check_timeout (mock_publish (\<lambda>i. Rc 0)) DEFAULT_CONFIG 7 idle [] = (idle, [], None)
   \<and> check_timeout (mock_publish (\<lambda>i. Rc 0)) DEFAULT_CONFIG 3
      \<lparr>message_buffer = [example_packet], last_message_time = Some 0\<rparr> [] =
     (\<lparr>message_buffer = [example_packet], last_message_time = Some 0\<rparr>, [], None)"
proof -
  let ?p = "mock_publish (\<lambda>i. Rc 0)"
  let ?s = "\<lparr>message_buffer = [], last_message_time = Some (0::real)\<rparr>"
  let ?s' = "\<lparr>message_buffer = [example_packet], last_message_time = Some (0::real)\<rparr>"
  have a: "last_message_time ?s = Some 0 \<and> echo_timeout DEFAULT_CONFIG < 6 - 0"
    by (simp add: DEFAULT_CONFIG_def)
  have b: "message_buffer ?s = []" by simp
  have c: "last_message_time ?s' = Some 0 \<and> 3 - 0 \<le> echo_timeout DEFAULT_CONFIG"
    by (simp add: DEFAULT_CONFIG_def)
  from C6_check_timeout [where s = ?s and t = 0 and cfg = DEFAULT_CONFIG and now = 6
      and publish = ?p and net = "[]"] a b
  have 1: "check_timeout ?p DEFAULT_CONFIG 6 ?s [] = (idle, [], None)"
    and 2: "check_timeout ?p DEFAULT_CONFIG 7 idle [] = (idle, [], None)"
    by blast+
  from C6_check_timeout [where s = ?s' and t = 0 and cfg = DEFAULT_CONFIG and now = 3
      and publish = ?p and net = "[]"] c
  have 3: "check_timeout ?p DEFAULT_CONFIG 3 ?s' [] = (?s', [], None)" by blast
  from 1 2 3 show ?thesis by blast
qed

text \<open>
  C7.  When a replay fires, every buffered packet is processed in arrival order whatever
  happens to the others.  The report's counts add up to the number of buffered packets, and
  the service is idle afterwards, for every transport.  With the recording transport, the
  publish calls are the rewritten packets in arrival order, one per packet whose rewrite
  succeeds; for a valid configuration and packets of at least 22 bytes that is one call per
  packet, the call number \<open>i\<close> carrying the rewrite of the packet number \<open>i\<close>.  For three such
  packets, when only the second publish fails, the report is 2 succeeded, 1 failed, 3 in
  total.
\<close>

theorem C7_replay_best_effort:
  assumes "last_message_time s = Some t" "echo_timeout cfg < now - t" "message_buffer s \<noteq> []"
  shows "(\<exists>sc fc net'. check_timeout publish cfg now s net =
              (idle, net', Some (sc, fc, length (message_buffer s)))
            \<and> sc + fc = length (message_buffer s))
    \<and> (\<exists>report. check_timeout (mock_publish outcome) cfg now s published =
              (idle, published @ attempts cfg (message_buffer s), report))
    \<and> (valid_config cfg \<and> list_all (\<lambda>m. 22 \<le> length m) (message_buffer s) \<longrightarrow>
          map (\<lambda>a. Inr (snd a)) (attempts cfg (message_buffer s)) =
            map (modify_msg cfg) (message_buffer s))
    \<and> (valid_config cfg \<and> list_all (\<lambda>m. 22 \<le> length m) (message_buffer s)
          \<and> length (message_buffer s) = 3
          \<and> outcome (length published) = Rc MQTT_ERR_SUCCESS
          \<and> outcome (length published + 1) \<noteq> Rc MQTT_ERR_SUCCESS
          \<and> outcome (length published + 2) = Rc MQTT_ERR_SUCCESS \<longrightarrow>
          (\<exists>net'. check_timeout (mock_publish outcome) cfg now s published =
              (idle, net', Some (2, 1, 3))))"
proof (intro conjI impI)
  note ct = check_timeout_fires(3) [OF assms(1,2,3)]
  from replay_messages_counts [of publish cfg s net]
  show "\<exists>sc fc net'. check_timeout publish cfg now s net =
              (idle, net', Some (sc, fc, length (message_buffer s)))
            \<and> sc + fc = length (message_buffer s)"
    unfolding ct by auto
  show "\<exists>report. check_timeout (mock_publish outcome) cfg now s published =
              (idle, published @ attempts cfg (message_buffer s), report)"
    unfolding ct replay_messages_mock by blast
next
  assume "valid_config cfg \<and> list_all (\<lambda>m. 22 \<le> length m) (message_buffer s)"
  then show "map (\<lambda>a. Inr (snd a)) (attempts cfg (message_buffer s)) =
            map (modify_msg cfg) (message_buffer s)"
    using attempts_rewrites by blast
next
  assume a: "valid_config cfg \<and> list_all (\<lambda>m. 22 \<le> length m) (message_buffer s)
          \<and> length (message_buffer s) = 3
          \<and> outcome (length published) = Rc MQTT_ERR_SUCCESS
          \<and> outcome (length published + 1) \<noteq> Rc MQTT_ERR_SUCCESS
          \<and> outcome (length published + 2) = Rc MQTT_ERR_SUCCESS"
  then obtain m1 m2 m3 where m: "message_buffer s = [m1, m2, m3]"
    by (auto simp: length_Suc_conv numeral_3_eq_3)
  have s: "s = \<lparr>message_buffer = [m1, m2, m3], last_message_time = Some t\<rparr>"
    using m assms(1) by (cases s) simp
  have "fst (replay_messages (mock_publish outcome) cfg s published) = (2, 1, 3)"
    unfolding s using a m by (intro replay_three) simp_all
  then show "\<exists>net'. check_timeout (mock_publish outcome) cfg now s published =
              (idle, net', Some (2, 1, 3))"
    using check_timeout_fires(3) [OF assms(1,2,3), of "mock_publish outcome" published] by simp
qed

theorem C7_replay_best_effort_witness:
  "check_timeout (mock_publish (\<lambda>i. if i = 1 then Rc 1 else Rc 0)) DEFAULT_CONFIG 6
      \<lparr>message_buffer = [example_packet, example_packet, example_packet],
       last_message_time = Some 0\<rparr> [] =
     (idle,
      [(''FMO/RAW'', example_replayed), (''FMO/RAW'', example_replayed),
       (''FMO/RAW'', example_replayed)],
      Some (2, 1, 3))"
proof -
  let ?out = "\<lambda>i::nat. if i = 1 then Rc 1 else Rc 0"
  let ?s = "\<lparr>message_buffer = [example_packet, example_packet, example_packet],
             last_message_time = Some (0::real)\<rparr>"
  have a: "last_message_time ?s = Some 0" by simp
  have b: "echo_timeout DEFAULT_CONFIG < 6 - 0" by (simp add: DEFAULT_CONFIG_def)
  have c: "message_buffer ?s \<noteq> []" by simp
  have d: "valid_config DEFAULT_CONFIG \<and> list_all (\<lambda>m. 22 \<le> length m) (message_buffer ?s)
          \<and> length (message_buffer ?s) = 3
          \<and> ?out (length ([] :: (string \<times> bytes) list)) = Rc MQTT_ERR_SUCCESS
          \<and> ?out (length ([] :: (string \<times> bytes) list) + 1) \<noteq> Rc MQTT_ERR_SUCCESS
          \<and> ?out (length ([] :: (string \<times> bytes) list) + 2) = Rc MQTT_ERR_SUCCESS"
    by (simp add: valid_config_def DEFAULT_CONFIG_def ascii_def scalar_value_def is_surrogate_def
        example_packet_def MQTT_ERR_SUCCESS_def)
  have m: "modify_msg DEFAULT_CONFIG example_packet = Inr example_replayed"
    by (rule eval_modify) (simp_all add: DEFAULT_CONFIG_def)
  have e: "attempts DEFAULT_CONFIG (message_buffer ?s) =
      [(''FMO/RAW'', example_replayed), (''FMO/RAW'', example_replayed),
       (''FMO/RAW'', example_replayed)]"
    by (simp add: attempts_def List.map_filter_simps m) (simp add: DEFAULT_CONFIG_def)
  from C7_replay_best_effort [OF a b c, where publish = "mock_publish ?out" and net = "[]"
      and outcome = ?out and published = "[]"] d
  obtain report net' where
    "check_timeout (mock_publish ?out) DEFAULT_CONFIG 6 ?s [] =
       (idle, [] @ attempts DEFAULT_CONFIG (message_buffer ?s), report)"
    "check_timeout (mock_publish ?out) DEFAULT_CONFIG 6 ?s [] = (idle, net', Some (2, 1, 3))"
    by blast
  then show ?thesis unfolding e by simp
qed

text \<open>
  C8.  \<^verbatim>\<open>from_bytes\<close> raises \<^verbatim>\<open>ValueError\<close> exactly when the input has fewer than 22 bytes; on
  at least 22 bytes it returns a header whose callsign is the 12-byte field at offset 10,
  with its trailing zero bytes removed (what is removed is zero bytes only, and what is left
  does not end in one), decoded as UTF-8.  The decoder is total and returns text; bytes that
  are valid UTF-8 decode to the text they encode, and any other input decodes to a string
  that contains the replacement character.
\<close>

theorem C8_from_bytes:
  "(from_bytes d = Inl ValueError \<longleftrightarrow> length d < 22)
   \<and> (22 \<le> length d \<longrightarrow>
        (\<exists>h. from_bytes d = Inr h
           \<and> callsign h = PyStr (utf8_decode_replace (rstrip_zero (take 12 (drop 10 d))))
           \<and> text_value (callsign h)))
   \<and> (\<exists>k. bs = rstrip_zero bs @ replicate k 0)
   \<and> (rstrip_zero bs = [] \<or> last (rstrip_zero bs) \<noteq> 0)
   \<and> list_all scalar_value (utf8_decode_replace bs)
   \<and> (REPLACEMENT \<in> set (utf8_decode_replace bs)
        \<or> utf8_encode (utf8_decode_replace bs) = Inr bs)
   \<and> (utf8_encode s = Inr bs \<and> list_all (\<lambda>c. c < 0x110000) s \<longrightarrow> utf8_decode_replace bs = s)"
  using from_bytes_ValueError_iff [of d] from_bytes_callsign [of d] rstrip_zero_spec [of bs]
    decode_scalar [of bs] decode_replaced_or_valid [of bs] utf8_decode_encode [of s bs]
  by blast


theorem C8_from_bytes_witness:
  "from_bytes [0x74, 0x6F, 0x6F] = Inl ValueError
   \<and> (\<exists>h. from_bytes example_packet = Inr h \<and> callsign h = PyStr (ascii ''BD8BOJ''))"
proof -
  have a: "length [0x74, 0x6F, 0x6F :: byte] < 22" by simp
  have b: "22 \<le> length example_packet" by (simp add: example_packet_def)
  have c: "utf8_decode_replace (rstrip_zero (take 12 (drop 10 example_packet))) = ascii ''BD8BOJ''"
    using from_bytes_Inr [OF b] eval_example_from_bytes by (simp add: init_def)
  from C8_from_bytes [where d = "[0x74, 0x6F, 0x6F]"] a
  have "from_bytes [0x74, 0x6F, 0x6F] = Inl ValueError" by blast
  moreover from C8_from_bytes [where d = example_packet] b
  have "\<exists>h. from_bytes example_packet = Inr h
          \<and> callsign h = PyStr (utf8_decode_replace (rstrip_zero (take 12 (drop 10 example_packet))))"
    by blast
  ultimately show ?thesis unfolding c by blast
qed


text \<open>
  C9.  With relay uid 65535 and prefix \<^verbatim>\<open>RE>\<close>, the replay of the buffered example packet
  (version 1, uid 441, callsign \<^verbatim>\<open>BD8BOJ\<close>, payload \<^verbatim>\<open>DE AD BE EF\<close>) publishes one packet,
  whose header decodes to uid 65535 and callsign \<^verbatim>\<open>RE>BD8BOJ\<close> and whose payload is
  \<^verbatim>\<open>DE AD BE EF\<close>.
\<close>

theorem C9_concrete_replay:
  assumes "echo_uid cfg = 65535" "echo_callsign_prefix cfg = ascii ''RE>''"
    and "echo_timeout cfg < now - t"
  shows "(\<exists>report. check_timeout (mock_publish outcome) cfg now
              \<lparr>message_buffer = [example_packet], last_message_time = Some t\<rparr> [] =
            (idle, [(topics_publish cfg, example_replayed)], report))
    \<and> from_bytes example_packet =
        Inr (init (PyInt 1) (PyInt 441) (PyStr (ascii ''BD8BOJ'')) (PyInt 0) (PyInt 0))
    \<and> drop 22 example_packet = [0xDE, 0xAD, 0xBE, 0xEF]
    \<and> from_bytes example_replayed =
        Inr (init (PyInt 1) (PyInt 65535) (PyStr (ascii ''RE>BD8BOJ'')) (PyInt 0) (PyInt 0))
    \<and> drop 22 example_replayed = [0xDE, 0xAD, 0xBE, 0xEF]"
proof (intro conjI)
  let ?s = "\<lparr>message_buffer = [example_packet], last_message_time = Some t\<rparr>"
  have "attempts cfg (message_buffer ?s) = [(topics_publish cfg, example_replayed)]"
    by (simp add: attempts_def List.map_filter_simps eval_modify [OF assms(1,2)])
  then show "\<exists>report. check_timeout (mock_publish outcome) cfg now ?s [] =
            (idle, [(topics_publish cfg, example_replayed)], report)"
    using check_timeout_fires(3) [of ?s t cfg now "mock_publish outcome" "[]"] assms(3)
      replay_messages_mock [of outcome cfg ?s "[]"]
    by simp
  show "drop 22 example_packet = [0xDE, 0xAD, 0xBE, 0xEF]" by (simp add: example_packet_def)
  show "drop 22 example_replayed = [0xDE, 0xAD, 0xBE, 0xEF]" by (simp add: example_replayed_def)
qed (rule eval_example_from_bytes eval_replayed_from_bytes)+

theorem C9_concrete_replay_witness:
  "check_timeout (mock_publish (\<lambda>i. Rc 0)) DEFAULT_CONFIG 6
      \<lparr>message_buffer = [example_packet], last_message_time = Some 0\<rparr> [] =
     (idle, [(''FMO/RAW'', example_replayed)], Some (1, 0, 1))"
proof -
  let ?s = "\<lparr>message_buffer = [example_packet], last_message_time = Some (0::real)\<rparr>"
  have a: "echo_uid DEFAULT_CONFIG = 65535" "echo_callsign_prefix DEFAULT_CONFIG = ascii ''RE>''"
    "echo_timeout DEFAULT_CONFIG < 6 - 0" "topics_publish DEFAULT_CONFIG = ''FMO/RAW''"
    by (simp_all add: DEFAULT_CONFIG_def)
  from C9_concrete_replay [OF a(1,2,3), where outcome = "\<lambda>i. Rc 0"] obtain report where
    r: "check_timeout (mock_publish (\<lambda>i. Rc 0)) DEFAULT_CONFIG 6 ?s [] =
          (idle, [(topics_publish DEFAULT_CONFIG, example_replayed)], report)" by blast
  have m: "modify_msg DEFAULT_CONFIG example_packet = Inr example_replayed"
    by (rule eval_modify [OF a(1,2)])
  have "snd (snd (check_timeout (mock_publish (\<lambda>i. Rc 0)) DEFAULT_CONFIG 6 ?s [])) = Some (1, 0, 1)"
    using a(3)
    by (simp add: check_timeout_def replay_messages_def replay_one_def m mock_publish_def
        MQTT_ERR_SUCCESS_def)
  with r show ?thesis by (simp add: a(4))
qed

text \<open>
  C10.  A packet shorter than 22 bytes makes \<^verbatim>\<open>from_bytes\<close> raise \<^verbatim>\<open>ValueError\<close> inside the
  \<^verbatim>\<open>try\<close> block of \<^verbatim>\<open>_on_message\<close>; the handler catches it and returns normally, with the
  buffer and the timestamp unchanged.
\<close>

theorem C10_short_packet_ignored:
  assumes "length payload < 22"
  shows "on_message_try cfg now payload s = Inl ValueError \<and> on_message cfg now payload s = Inr s"
  using on_message_short [OF assms] by blast

theorem C10_short_packet_ignored_witness:
  "on_message_try DEFAULT_CONFIG 7 [0x74, 0x6F, 0x6F]
       \<lparr>message_buffer = [example_packet], last_message_time = Some 1\<rparr> = Inl ValueError
   \<and> on_message DEFAULT_CONFIG 7 [0x74, 0x6F, 0x6F]
       \<lparr>message_buffer = [example_packet], last_message_time = Some 1\<rparr> =
     Inr \<lparr>message_buffer = [example_packet], last_message_time = Some 1\<rparr>"
proof -
  have "length [0x74, 0x6F, 0x6F :: byte] < 22" by simp
  from C10_short_packet_ignored [OF this] show ?thesis .
qed

end
